theory Spec2Isabelle
  imports Complex_Main "HOL-Library.Word"
begin

section \<open>JavaScript strings\<close>

text \<open>
  A JavaScript string is a sequence of UTF-16 code units; \<open>length\<close>, \<open>slice\<close>,
  \<open>indexOf\<close>, \<open>startsWith\<close> and the document offsets of the editor all count code
  units.  ASCII literals are written through \<open>str\<close>.
\<close>

type_synonym jsstring = "16 word list"

definition str :: "string \<Rightarrow> jsstring" where
  "str s = map of_char s"

definition LBRACKET :: "16 word" where "LBRACKET = 0x5B"
definition RBRACKET :: "16 word" where "RBRACKET = 0x5D"
definition PIPE :: "16 word" where "PIPE = 0x7C"

text \<open>\<open>String.prototype.startsWith\<close> and \<open>endsWith\<close> with the default position.\<close>

definition startsWith :: "jsstring \<Rightarrow> jsstring \<Rightarrow> bool" where
  "startsWith s p \<longleftrightarrow> take (length p) s = p"

definition endsWith :: "jsstring \<Rightarrow> jsstring \<Rightarrow> bool" where
  "endsWith s p \<longleftrightarrow> length p \<le> length s \<and> drop (length s - length p) s = p"

text \<open>
  \<open>String.prototype.slice(start, end)\<close>: a negative index counts from the end of the
  string, and both indices are clamped to the string.
\<close>

definition slice :: "jsstring \<Rightarrow> int \<Rightarrow> int \<Rightarrow> jsstring" where
  "slice s start end =
     (let len = int (length s);
          from = (if start < 0 then max (len + start) 0 else min start len);
          to = (if end < 0 then max (len + end) 0 else min end len)
      in take (nat (to - from)) (drop (nat from) s))"

text \<open>
  \<open>indexOf(search, position)\<close> is the least index at or after the position where the
  search string occurs, \<open>lastIndexOf(search, position)\<close> the greatest index at or before
  it; a negative position counts as 0 and one past the end as the length.  The result
  \<open>-1\<close> of JavaScript is \<open>None\<close>.
\<close>

definition occursAt :: "jsstring \<Rightarrow> jsstring \<Rightarrow> nat \<Rightarrow> bool" where
  "occursAt s p k \<longleftrightarrow> k + length p \<le> length s \<and> take (length p) (drop k s) = p"

definition indexOf :: "jsstring \<Rightarrow> jsstring \<Rightarrow> int \<Rightarrow> nat option" where
  "indexOf s p position =
     find (occursAt s p) [min (nat position) (length s) ..< Suc (length s)]"

definition lastIndexOf :: "jsstring \<Rightarrow> jsstring \<Rightarrow> int \<Rightarrow> nat option" where
  "lastIndexOf s p position =
     find (occursAt s p) (rev [0 ..< Suc (min (nat position) (length s))])"

section \<open>Prefix rules (src/lib/types/PrefixMapping.ts)\<close>

record PrefixMapping =
  prefix :: jsstring
  emoji :: jsstring
  linkType :: jsstring
  color :: jsstring
  background :: jsstring
  backgroundAlpha :: real
  underline :: bool

section \<open>Rule Set merge (src/lib/cm/SettingsFacet.ts)\<close>

text \<open>
  A JavaScript \<open>Map\<close> iterates in insertion order.  \<open>Map.prototype.set\<close> on a key
  that is present replaces the value and leaves the entry where it is; on a new key it
  appends the entry.  The map is an association list in iteration order.
\<close>

type_synonym ('k, 'v) jsmap = "('k \<times> 'v) list"

fun map_set :: "('k, 'v) jsmap \<Rightarrow> 'k \<Rightarrow> 'v \<Rightarrow> ('k, 'v) jsmap" where
  "map_set [] k v = [(k, v)]"
| "map_set ((k', v') # m) k v =
     (if k' = k then (k', v) # m else (k', v') # map_set m k v)"

definition map_values :: "('k, 'v) jsmap \<Rightarrow> 'v list" where
  "map_values m = map snd m"

text \<open>
  The \<open>combine\<close> function of \<open>SLD_SettingsFacet\<close>: the outer loop runs over the
  contributed arrays, the inner one over the mappings of one array.
\<close>

definition combine_step :: "(jsstring, PrefixMapping) jsmap \<Rightarrow> PrefixMapping
    \<Rightarrow> (jsstring, PrefixMapping) jsmap" where
  "combine_step byPrefix mapping = map_set byPrefix (prefix mapping) mapping"

definition combine :: "PrefixMapping list list \<Rightarrow> PrefixMapping list" where
  "combine vals =
     map_values (foldl (\<lambda>byPrefix mappings. foldl combine_step byPrefix mappings) [] vals)"

text \<open>
  The spec's words for the order of the output: every key once, at the place of its first
  insertion.
\<close>

definition first_insertion_order :: "'k list \<Rightarrow> 'k list" where
  "first_insertion_order ks = rev (remdups (rev ks))"

text \<open>The spec's words for the surviving value: the last rule written under a key.\<close>

definition last_write :: "PrefixMapping list \<Rightarrow> jsstring \<Rightarrow> PrefixMapping option" where
  "last_write ms k = find (\<lambda>m. prefix m = k) (rev ms)"

section \<open>Link text parser (utils/parse.ts)\<close>

text \<open>
  \<open>WIKI_LINK_REGEX\<close> is \<^verbatim>\<open>/^\[\[([^|\]]*)\|([^\]]*)\]\]$/\<close>.  Its match is
  deterministic: the first group is the longest run of code units other than \<open>|\<close> and
  \<open>]\<close> and must be followed by \<open>|\<close>; the second group is the longest run of code
  units other than \<open>]\<close> and must be followed by \<open>]]\<close> and the end of the input.  A
  shorter group would be followed by a code unit of the group itself, which is not the
  literal the expression asks for next, so backtracking finds no other match.  The result
  is the pair of the two groups, \<open>None\<close> when \<open>match\<close> returns \<open>null\<close>.
\<close>

definition WIKI_LINK_REGEX :: "jsstring \<Rightarrow> (jsstring \<times> jsstring) option" where
  "WIKI_LINK_REGEX s =
     (case s of
        a # b # rest \<Rightarrow>
          if a = LBRACKET \<and> b = LBRACKET then
            (let g1 = takeWhile (\<lambda>c. c \<noteq> PIPE \<and> c \<noteq> RBRACKET) rest;
                 r1 = dropWhile (\<lambda>c. c \<noteq> PIPE \<and> c \<noteq> RBRACKET) rest
             in case r1 of
                  p # r2 \<Rightarrow>
                    if p = PIPE then
                      (let g2 = takeWhile (\<lambda>c. c \<noteq> RBRACKET) r2;
                           r3 = dropWhile (\<lambda>c. c \<noteq> RBRACKET) r2
                       in if r3 = [RBRACKET, RBRACKET] then Some (g1, g2) else None)
                    else None
                | [] \<Rightarrow> None)
          else None
      | _ \<Rightarrow> None)"

definition parseWikiLink :: "jsstring \<Rightarrow> jsstring \<times> jsstring" where
  "parseWikiLink linkString =
     (let match = WIKI_LINK_REGEX linkString;
          filename = (case match of Some (g1, g2) \<Rightarrow> g1 | None \<Rightarrow> []);
          alias = (case match of Some (g1, g2) \<Rightarrow> g2 | None \<Rightarrow> [])
      in (filename, alias))"

text \<open>
  The language of the regular expression, as a relation: the input is \<open>[[A|B]]\<close> where
  \<open>A\<close> has neither \<open>|\<close> nor \<open>]\<close> and \<open>B\<close> has no \<open>]\<close>.
\<close>

definition wiki_link_shape :: "jsstring \<Rightarrow> jsstring \<Rightarrow> jsstring \<Rightarrow> bool" where
  "wiki_link_shape s A B \<longleftrightarrow>
     s = [LBRACKET, LBRACKET] @ A @ [PIPE] @ B @ [RBRACKET, RBRACKET]
     \<and> PIPE \<notin> set A \<and> RBRACKET \<notin> set A \<and> RBRACKET \<notin> set B"

section \<open>Syntax tree and tree cursor (the interface of the external parser)\<close>

text \<open>
  A node of the syntax tree has the name of its type, its offsets in the document and its
  children.  A \<open>TreeCursor\<close> stands at one node; it knows the siblings before and after
  the node and the ancestors above it.  \<open>nextSibling\<close>, \<open>firstChild\<close> and \<open>parent\<close>
  move the cursor and answer whether they moved.
\<close>

datatype Tree = Node (type_name: jsstring) (node_from: nat) (node_to: nat) (children: "Tree list")

datatype Ancestor =
  Ancestor (anc_name: jsstring) (anc_from: nat) (anc_to: nat)
    (anc_before: "Tree list") (anc_after: "Tree list")

record TreeCursor =
  node :: Tree
  before :: "Tree list"
  after :: "Tree list"
  above :: "Ancestor list"

definition tree_cursor :: "Tree \<Rightarrow> TreeCursor" where
  "tree_cursor t = \<lparr>node = t, before = [], after = [], above = []\<rparr>"

definition move_nextSibling :: "TreeCursor \<Rightarrow> bool \<times> TreeCursor" where
  "move_nextSibling c =
     (case after c of
        [] \<Rightarrow> (False, c)
      | n # ns \<Rightarrow> (True, c\<lparr>node := n, before := node c # before c, after := ns\<rparr>))"

definition move_firstChild :: "TreeCursor \<Rightarrow> bool \<times> TreeCursor" where
  "move_firstChild c =
     (case children (node c) of
        [] \<Rightarrow> (False, c)
      | n # ns \<Rightarrow>
          (True, \<lparr>node = n, before = [], after = ns,
                  above = Ancestor (type_name (node c)) (node_from (node c)) (node_to (node c))
                            (before c) (after c) # above c\<rparr>))"

definition move_parent :: "TreeCursor \<Rightarrow> bool \<times> TreeCursor" where
  "move_parent c =
     (case above c of
        [] \<Rightarrow> (False, c)
      | Ancestor nm f t b a # up \<Rightarrow>
          (True, \<lparr>node = Node nm f t (rev (before c) @ node c # after c),
                  before = b, after = a, above = up\<rparr>))"

text \<open>
  Cursors are mutable objects.  The store holds every cursor object that exists; a
  cursor variable of the program is an address into it.  \<open>cursor.nextSibling()\<close> changes
  the object at the address, \<open>cursor.node.cursor()\<close> allocates a new object standing at
  the same node.
\<close>

type_synonym addr = nat
type_synonym store = "TreeCursor list"

definition nextSibling :: "store \<Rightarrow> addr \<Rightarrow> bool \<times> store" where
  "nextSibling h cursor =
     (let (moved, c) = move_nextSibling (h ! cursor) in (moved, h[cursor := c]))"

definition node_cursor :: "store \<Rightarrow> addr \<Rightarrow> addr \<times> store" where
  "node_cursor h cursor = (length h, h @ [h ! cursor])"

section \<open>Tree Matcher (src/lib/cm/buildDecorations.ts)\<close>

definition FLINK :: jsstring where "FLINK = str ''formatting-link''"
definition FLINKSTART :: jsstring where "FLINKSTART = str ''formatting-link-start''"
definition FLINKEND :: jsstring where "FLINKEND = str ''formatting-link-end''"
definition ILINK :: jsstring where "ILINK = str ''hmd-internal-link''"
definition LINKHASALIAS :: jsstring where "LINKHASALIAS = str ''link-has-alias''"
definition LINKALIASPIPE :: jsstring where "LINKALIASPIPE = str ''link-alias-pipe''"
definition LINKALIAS :: jsstring where "LINKALIAS = str ''link-alias''"

text \<open>\<open>String.prototype.split\<close> with a separator of one code unit.\<close>

fun split :: "jsstring \<Rightarrow> 16 word \<Rightarrow> jsstring list" where
  "split [] sep = [[]]"
| "split (c # cs) sep =
     (if c = sep then [] # split cs sep
      else (case split cs sep of w # ws \<Rightarrow> (c # w) # ws | [] \<Rightarrow> [[c]]))"

definition UNDERSCORE :: "16 word" where "UNDERSCORE = 0x5F"

definition getFragments :: "store \<Rightarrow> addr \<Rightarrow> jsstring list" where
  "getFragments h cursor = split (type_name (node (h ! cursor))) UNDERSCORE"

definition array_includes :: "jsstring list \<Rightarrow> jsstring \<Rightarrow> bool" where
  "array_includes fragments x \<longleftrightarrow> x \<in> set fragments"

definition isFLinkStart :: "jsstring list \<Rightarrow> bool" where
  "isFLinkStart fragments \<longleftrightarrow> array_includes fragments FLINK \<and> array_includes fragments FLINKSTART"

definition isFLinkEnd :: "jsstring list \<Rightarrow> bool" where
  "isFLinkEnd fragments \<longleftrightarrow> array_includes fragments FLINK \<and> array_includes fragments FLINKEND"

definition isInternalLinkWithAlias :: "jsstring list \<Rightarrow> bool" where
  "isInternalLinkWithAlias fragments \<longleftrightarrow>
     array_includes fragments ILINK \<and> array_includes fragments LINKHASALIAS"

definition isInternalLinksPipe :: "jsstring list \<Rightarrow> bool" where
  "isInternalLinksPipe fragments \<longleftrightarrow>
     array_includes fragments ILINK \<and> array_includes fragments LINKALIASPIPE"

definition isInternalLinksAlias :: "jsstring list \<Rightarrow> bool" where
  "isInternalLinksAlias fragments \<longleftrightarrow> array_includes fragments ILINK \<and> array_includes fragments LINKALIAS"

text \<open>
  A function that works on cursors takes the store and returns it with its result;
  \<open>null\<close> is \<open>None\<close>.
\<close>

definition onMatchContinue ::
  "store \<Rightarrow> addr \<Rightarrow> (jsstring list \<Rightarrow> bool) \<Rightarrow> (store \<Rightarrow> addr \<Rightarrow> addr option \<times> store)
     \<Rightarrow> addr option \<times> store" where
  "onMatchContinue h cursor match next =
     (let fragments = getFragments h cursor
      in if \<not> match fragments then (None, h) else next h cursor)"

definition matchesInternalLink :: "store \<Rightarrow> addr \<Rightarrow> addr option \<times> store" where
  "matchesInternalLink h cursor =
     (let (probe, h0) = node_cursor h cursor in
      onMatchContinue h0 probe (\<lambda>fragments. isFLinkStart fragments) (\<lambda>h1 cursor.
        let (moved, h1) = nextSibling h1 cursor in
        if \<not> moved then (None, h1)
        else onMatchContinue h1 cursor (\<lambda>fragments. isInternalLinkWithAlias fragments) (\<lambda>h2 cursor.
          let (moved, h2) = nextSibling h2 cursor in
          if \<not> moved then (None, h2)
          else onMatchContinue h2 cursor (\<lambda>fragments. isInternalLinksPipe fragments) (\<lambda>h3 cursor.
            let (moved, h3) = nextSibling h3 cursor in
            if \<not> moved then (None, h3)
            else onMatchContinue h3 cursor (\<lambda>fragments. isInternalLinksAlias fragments) (\<lambda>h4 cursor.
              let (moved, h4) = nextSibling h4 cursor in
              if \<not> moved then (None, h4)
              else onMatchContinue h4 cursor (\<lambda>fragments. isFLinkEnd fragments) (\<lambda>h5 cursor.
                let (clone, h5) = node_cursor h5 cursor in (Some clone, h5)))))))"

text \<open>
  The spec's words for the grammar sequence: the names of the node under the cursor and of
  its next siblings begin with the five roles, in order.
\<close>

definition has_role :: "jsstring \<Rightarrow> jsstring \<Rightarrow> jsstring \<Rightarrow> bool" where
  "has_role nm x y \<longleftrightarrow> x \<in> set (split nm UNDERSCORE) \<and> y \<in> set (split nm UNDERSCORE)"

fun five_roles :: "jsstring list \<Rightarrow> bool" where
  "five_roles (n1 # n2 # n3 # n4 # n5 # rest) \<longleftrightarrow>
     has_role n1 FLINK FLINKSTART \<and> has_role n2 ILINK LINKHASALIAS
     \<and> has_role n3 ILINK LINKALIASPIPE \<and> has_role n4 ILINK LINKALIAS
     \<and> has_role n5 FLINK FLINKEND"
| "five_roles _ \<longleftrightarrow> False"

text \<open>
  How many of the five roles the nodes satisfy, counted from the first node and stopping at
  the first node that fails its role.
\<close>

definition ROLES :: "(jsstring \<times> jsstring) list" where
  "ROLES = [(FLINK, FLINKSTART), (ILINK, LINKHASALIAS), (ILINK, LINKALIASPIPE),
            (ILINK, LINKALIAS), (FLINK, FLINKEND)]"

fun roles_matched :: "(jsstring \<times> jsstring) list \<Rightarrow> jsstring list \<Rightarrow> nat" where
  "roles_matched ((x, y) # roles) (nm # names) =
     (if has_role nm x y then Suc (roles_matched roles names) else 0)"
| "roles_matched _ _ = 0"

text \<open>The cursor that stands \<open>m\<close> siblings after the cursor \<open>c\<close>.\<close>

definition siblings_moved :: "nat \<Rightarrow> TreeCursor \<Rightarrow> TreeCursor" where
  "siblings_moved m c =
     c\<lparr>node := (node c # after c) ! m,
       before := rev (take m (node c # after c)) @ before c,
       after := drop m (after c)\<rparr>"

section \<open>Annotation Builder (src/lib/cm/buildDecorations.ts)\<close>

text \<open>
  A JavaScript object with string keys lists its properties in insertion order, as a
  \<open>Map\<close> does.  The spread \<open>{...a, ...b}\<close> copies the properties of \<open>a\<close> and then
  those of \<open>b\<close> into a new object, each with the semantics of \<open>map_set\<close>.
\<close>

type_synonym attrs = "(jsstring, jsstring) jsmap"

definition spread :: "attrs \<Rightarrow> attrs \<Rightarrow> attrs" where
  "spread target source = foldl (\<lambda>obj (k, v). map_set obj k v) target source"

record MarkDecorationSpec =
  inclusive :: "bool option"
  attributes :: "attrs option"
  spec_class :: "jsstring option"
  tagName :: "jsstring option"

datatype Decoration = Mark MarkDecorationSpec

record DecorationRange =
  range_from :: nat
  range_to :: nat
  range_value :: Decoration

text \<open>
  \<open>RangeSetBuilder\<close> belongs to the editor library.  It is modelled by the ranges it was
  given, in the order of the calls of \<open>add\<close>; \<open>finish\<close> returns them as the set.
\<close>

type_synonym RangeSetBuilder = "DecorationRange list"
type_synonym DecorationSet = "DecorationRange list"

definition builder_add :: "RangeSetBuilder \<Rightarrow> nat \<Rightarrow> nat \<Rightarrow> Decoration \<Rightarrow> RangeSetBuilder" where
  "builder_add builder f t v = builder @ [\<lparr>range_from = f, range_to = t, range_value = v\<rparr>]"

definition builder_finish :: "RangeSetBuilder \<Rightarrow> DecorationSet" where
  "builder_finish builder = builder"

definition DATA_SLD_TYPE :: jsstring where
  "DATA_SLD_TYPE = str ''data-sld-type''"

definition spec_attributes :: "MarkDecorationSpec \<Rightarrow> attrs" where
  "spec_attributes spec = (case attributes spec of None \<Rightarrow> [] | Some a \<Rightarrow> a)"

definition newspec :: "MarkDecorationSpec \<Rightarrow> PrefixMapping \<Rightarrow> MarkDecorationSpec" where
  "newspec spec setting =
     (let attributes' = [(DATA_SLD_TYPE, linkType setting)]
      in spec\<lparr>attributes := Some (spread (spread [] (spec_attributes spec)) attributes')\<rparr>)"

fun decorate :: "RangeSetBuilder \<Rightarrow> PrefixMapping list \<Rightarrow> MarkDecorationSpec \<Rightarrow> jsstring
    \<Rightarrow> nat \<Rightarrow> nat \<Rightarrow> RangeSetBuilder" where
  "decorate builder [] spec aliasText startFrom endTo = builder"
| "decorate builder (setting # settings) spec aliasText startFrom endTo =
     (if startsWith aliasText (prefix setting) \<or> startsWith aliasText (emoji setting)
      then builder_add builder startFrom endTo (Mark (newspec spec setting))
      else decorate builder settings spec aliasText startFrom endTo)"

section \<open>Editor state and update events (the interface of the editor)\<close>

text \<open>
  The main range of a selection; a caret is a range whose two ends are equal.
\<close>

record SelectionRange =
  anchor :: nat
  head :: nat

definition range_start :: "SelectionRange \<Rightarrow> nat" where
  "range_start r = min (anchor r) (head r)"

definition range_end :: "SelectionRange \<Rightarrow> nat" where
  "range_end r = max (anchor r) (head r)"

definition range_empty :: "SelectionRange \<Rightarrow> bool" where
  "range_empty r \<longleftrightarrow> range_start r = range_end r"

text \<open>
  An editor state has the document, the main selection, the syntax tree of the document,
  and the value of \<open>SLD_SettingsFacet\<close>: the arrays contributed to the facet and the
  identity of the array object that holds their merge.  \<open>state.facet(SLD_SettingsFacet)\<close>
  is the merge of the contributions.
\<close>

record EditorState =
  doc :: jsstring
  selection :: SelectionRange
  syntaxTree :: Tree
  facet_inputs :: "PrefixMapping list list"
  facet_ref :: nat

definition facet :: "EditorState \<Rightarrow> PrefixMapping list" where
  "facet st = combine (facet_inputs st)"

text \<open>
  \<open>Text.sliceString(from, to)\<close> of the editor's document, and \<open>state.sliceDoc\<close>,
  which calls it on the document of the state.
\<close>

definition sliceString :: "jsstring \<Rightarrow> nat \<Rightarrow> nat \<Rightarrow> jsstring" where
  "sliceString d f t = take (t - f) (drop f d)"

definition sliceDoc :: "EditorState \<Rightarrow> nat \<Rightarrow> nat \<Rightarrow> jsstring" where
  "sliceDoc st f t = sliceString (doc st) f t"

text \<open>Of a transaction only the answer of \<open>tr.isUserEvent("input")\<close> is read.\<close>

record Transaction =
  isUserEvent_input :: bool

record ViewUpdate =
  docChanged :: bool
  viewportChanged :: bool
  selectionSet :: bool
  transactions :: "Transaction list"
  startState :: EditorState
  state :: EditorState

section \<open>Link Walker and top-level operation (src/lib/cm/buildDecorations.ts)\<close>

text \<open>
  \<open>traverse\<close> handles the node under the cursor, descends into its children when
  \<open>firstChild\<close> succeeds, returns with \<open>parent\<close>, and repeats while \<open>nextSibling\<close>
  succeeds.  The recursion runs over the node and its next siblings; the cursor of each
  step is the one standing at that node.  The callback changes the state of its caller,
  which is passed through.
\<close>

fun traverse :: "EditorState \<Rightarrow> Ancestor list \<Rightarrow> Tree list \<Rightarrow> Tree list
    \<Rightarrow> (nat \<Rightarrow> nat \<Rightarrow> jsstring \<Rightarrow> jsstring \<Rightarrow> 's \<Rightarrow> 's) \<Rightarrow> 's \<Rightarrow> 's" where
  "traverse st up bef [] callback s = s"
| "traverse st up bef (Node nm f t cs # aft) callback s =
     (let cursor = \<lparr>node = Node nm f t cs, before = bef, after = aft, above = up\<rparr>;
          (matchCursor, h) = matchesInternalLink [cursor] 0;
          s1 = (case matchCursor of
                  None \<Rightarrow> s
                | Some m \<Rightarrow>
                    (let start = node_from (node cursor);
                         stop = node_to (node (h ! m));
                         linkText = sliceDoc st start stop;
                         (fname, aliasText) = parseWikiLink linkText
                     in callback start stop fname aliasText s));
          s2 = traverse st (Ancestor nm f t bef aft # up) [] cs callback s1
      in traverse st up (Node nm f t cs # bef) aft callback s2)"

definition findWikiLinks :: "EditorState \<Rightarrow> TreeCursor
    \<Rightarrow> (nat \<Rightarrow> nat \<Rightarrow> jsstring \<Rightarrow> jsstring \<Rightarrow> 's \<Rightarrow> 's) \<Rightarrow> 's \<Rightarrow> 's" where
  "findWikiLinks st cursor callback s =
     traverse st (above cursor) (before cursor) (node cursor # after cursor) callback s"

definition empty_spec :: MarkDecorationSpec where
  "empty_spec = \<lparr>inclusive = None, attributes = None, spec_class = None, tagName = None\<rparr>"

definition buildLinkDecorations :: "EditorState \<Rightarrow> PrefixMapping list \<Rightarrow> DecorationSet" where
  "buildLinkDecorations st settings =
     (let builder = [];
          cursor = tree_cursor (syntaxTree st);
          builder = findWikiLinks st cursor
            (\<lambda>startFrom endTo fname aliasText b.
               decorate b settings empty_spec aliasText startFrom endTo) builder
      in builder_finish builder)"

section \<open>Reactive Annotation Component (src/lib/cm/CMLinkDecoratorPlugin.ts)\<close>

record CMLinkDecoratorPlugin =
  decorations :: DecorationSet

definition CMLinkDecoratorPlugin_constructor :: "EditorState \<Rightarrow> CMLinkDecoratorPlugin" where
  "CMLinkDecoratorPlugin_constructor st =
     (let settings = facet st in \<lparr>decorations = buildLinkDecorations st settings\<rparr>)"

text \<open>
  \<open>!==\<close> on two arrays compares the identities of the objects, not their elements.
\<close>

definition CMLinkDecoratorPlugin_update ::
  "ViewUpdate \<Rightarrow> CMLinkDecoratorPlugin \<Rightarrow> CMLinkDecoratorPlugin" where
  "CMLinkDecoratorPlugin_update u this =
     (if docChanged u \<or> viewportChanged u
         \<or> facet_ref (startState u) \<noteq> facet_ref (state u)
      then (let settings = facet (state u)
            in this\<lparr>decorations := buildLinkDecorations (state u) settings\<rparr>)
      else this)"

section \<open>Alias Replacement Component (cm/CMLinkAliasReplacementPlugin.ts)\<close>

record Link =
  link_from :: nat
  link_to :: nat
  link_text :: jsstring

record AliasInfo =
  alias_text :: jsstring
  alias_from :: nat
  prefixLength :: nat

text \<open>
  The argument of \<open>view.dispatch\<close>.  \<open>setTimeout(f, 0)\<close> appends \<open>f\<close> to the queue of
  timers; every \<open>f\<close> queued here is one call of \<open>dispatch\<close>, so the queue is the list
  of these arguments.
\<close>

record TransactionSpec =
  changes_from :: nat
  changes_to :: nat
  changes_insert :: jsstring
  spec_selection :: SelectionRange
  spec_userEvent :: jsstring

type_synonym timers = "TransactionSpec list"

definition extractCompletedWikilink :: "jsstring \<Rightarrow> nat \<Rightarrow> Link option" where
  "extractCompletedWikilink d cursorPos =
     (case lastIndexOf d (str ''[['') (int cursorPos - 1) of
        None \<Rightarrow> None
      | Some opn \<Rightarrow>
          (let text = slice d (int opn) (int cursorPos)
           in if \<not> endsWith text (str '']]'') then None
              else if indexOf text (str ''[['') 2 \<noteq> None then None
              else Some \<lparr>link_from = opn, link_to = cursorPos, link_text = text\<rparr>))"

definition findEnclosingWikilink :: "jsstring \<Rightarrow> nat \<Rightarrow> Link option" where
  "findEnclosingWikilink d pos =
     (case lastIndexOf d (str ''[['') (int pos) of
        None \<Rightarrow> None
      | Some opn \<Rightarrow>
          (case indexOf d (str '']]'') (int opn) of
             None \<Rightarrow> None
           | Some close \<Rightarrow>
               (let to = close + 2
                in if pos < opn \<or> pos > to then None
                   else Some \<lparr>link_from = opn, link_to = to,
                              link_text = slice d (int opn) (int to)\<rparr>)))"

definition extractAlias :: "ViewUpdate \<Rightarrow> jsstring \<Rightarrow> nat \<Rightarrow> AliasInfo option" where
  "extractAlias u linkText linkFrom =
     (case indexOf linkText (str ''|'') 0 of
        None \<Rightarrow> None
      | Some pipeIndex \<Rightarrow>
          (let aliasStart = pipeIndex + 1;
               aliasText = slice linkText (int aliasStart) (- 2)
           in if aliasText = [] then None
              else (let mappings = facet (state u)
                    in case find (\<lambda>m. startsWith aliasText (prefix m)) mappings of
                         None \<Rightarrow> None
                       | Some mapping \<Rightarrow>
                           Some \<lparr>alias_text = aliasText, alias_from = linkFrom + aliasStart,
                                 prefixLength = length (prefix mapping)\<rparr>)))"

definition resolveEmoji :: "ViewUpdate \<Rightarrow> jsstring \<Rightarrow> jsstring option" where
  "resolveEmoji u aliasText =
     (let mappings = facet (state u)
      in case find (\<lambda>m. startsWith aliasText (prefix m)) mappings of
           None \<Rightarrow> None
         | Some mapping \<Rightarrow> Some (emoji mapping))"

text \<open>\<open>!replacement\<close> holds for \<open>null\<close> and for the empty string.\<close>

definition processAlias :: "ViewUpdate \<Rightarrow> Link \<Rightarrow> timers \<Rightarrow> timers" where
  "processAlias u link q =
     (case extractAlias u (link_text link) (link_from link) of
        None \<Rightarrow> q
      | Some aliasInfo \<Rightarrow>
          (case resolveEmoji u (alias_text aliasInfo) of
             None \<Rightarrow> q
           | Some replacement \<Rightarrow>
               if replacement = [] then q
               else if alias_text aliasInfo = replacement then q
               else q @ [\<lparr>changes_from = alias_from aliasInfo,
                           changes_to = alias_from aliasInfo + prefixLength aliasInfo,
                           changes_insert = replacement,
                           spec_selection = selection (state u),
                           spec_userEvent = str ''input''\<rparr>]))"

definition handleLinkCompletion :: "ViewUpdate \<Rightarrow> timers \<Rightarrow> timers" where
  "handleLinkCompletion u q =
     (let st = state u; sel = selection st
      in if \<not> range_empty sel then q
         else (let cursorPos = range_start sel;
                   tail = sliceString (doc st) (nat (max 0 (int cursorPos - 2))) cursorPos
               in if tail \<noteq> str '']]'' then q
                  else (case extractCompletedWikilink (doc st) cursorPos of
                          None \<Rightarrow> q
                        | Some link \<Rightarrow> processAlias u link q)))"

definition handleCaretExit :: "ViewUpdate \<Rightarrow> timers \<Rightarrow> timers" where
  "handleCaretExit u q =
     (let prevSel = selection (startState u); nextSel = selection (state u)
      in if \<not> range_empty prevSel \<or> \<not> range_empty nextSel then q
         else (let prevPos = range_start prevSel; nextPos = range_start nextSel
               in if prevPos = nextPos then q
                  else (let d = doc (state u)
                        in case findEnclosingWikilink d prevPos of
                             None \<Rightarrow> q
                           | Some link \<Rightarrow>
                               if nextPos \<ge> link_from link \<and> nextPos \<le> link_to link then q
                               else processAlias u link q)))"

definition CMLinkAliasReplacementPlugin_update :: "ViewUpdate \<Rightarrow> timers \<Rightarrow> timers" where
  "CMLinkAliasReplacementPlugin_update u q =
     (let q1 = (if docChanged u
                then foldl (\<lambda>q tr. if \<not> isUserEvent_input tr then q
                                    else handleLinkCompletion u q) q (transactions u)
                else q)
      in if selectionSet u then handleCaretExit u q1 else q1)"

text \<open>
  What the editor does when a queued \<open>dispatch\<close> runs on a document: the range of the
  change is replaced by the inserted text.  A range outside the document, and a selection
  outside the new document, are refused with a \<open>RangeError\<close>, which is \<open>None\<close>.
\<close>

definition dispatch :: "jsstring \<Rightarrow> TransactionSpec \<Rightarrow> jsstring option" where
  "dispatch d spec =
     (if changes_from spec \<le> changes_to spec \<and> changes_to spec \<le> length d
      then (let d' = take (changes_from spec) d @ changes_insert spec
                       @ drop (changes_to spec) d
            in if range_end (spec_selection spec) \<le> length d' then Some d' else None)
      else None)"

section \<open>The scenarios of the spec\<close>

text \<open>The two contributors of the spec's scenario and of the facet's test.\<close>

definition rule_location :: PrefixMapping where
  "rule_location = \<lparr>prefix = str ''>'', emoji = [0xD83D, 0xDCCD], linkType = str ''location'',
     color = str ''#000000'', background = str ''#ffffff'', backgroundAlpha = 1,
     underline = False\<rparr>"

definition rule_navigation :: PrefixMapping where
  "rule_navigation = \<lparr>prefix = str ''>'', emoji = [0xD83E, 0xDDED],
     linkType = str ''navigation'', color = str ''#ff0000'', background = str ''#000000'',
     backgroundAlpha = 1 / 2, underline = True\<rparr>"

text \<open>The document, the rule and the completed link of the link-completion scenario.\<close>

definition scenario_doc :: jsstring where
  "scenario_doc = str ''Note [[Target|@Foo]] end''"

definition person_emoji :: jsstring where
  "person_emoji = [0xD83D, 0xDC64]"

definition rule_person :: PrefixMapping where
  "rule_person = \<lparr>prefix = str ''@'', emoji = person_emoji, linkType = str ''person'',
     color = str ''#111111'', background = str ''#eeeeee'', backgroundAlpha = 4 / 5,
     underline = True\<rparr>"

definition scenario_link :: Link where
  "scenario_link = \<lparr>link_from = 5, link_to = 20, link_text = str ''[[Target|@Foo]]''\<rparr>"

text \<open>
  The editor after the second \<open>]\<close> was typed, with the syntax tree of the document, and
  the update that typing it caused.
\<close>

definition scenario_state :: EditorState where
  "scenario_state = \<lparr>doc = scenario_doc, selection = \<lparr>anchor = 20, head = 20\<rparr>,
     syntaxTree = Node (str ''Document'') 0 24
       [Node (str ''formatting-link_formatting-link-start'') 5 7 [],
        Node (str ''hmd-internal-link_link-has-alias'') 7 13 [],
        Node (str ''hmd-internal-link_link-alias-pipe'') 13 14 [],
        Node (str ''hmd-internal-link_link-alias'') 14 18 [],
        Node (str ''formatting-link_formatting-link-end'') 18 20 []],
     facet_inputs = [[rule_person]], facet_ref = 1\<rparr>"

definition scenario_update :: ViewUpdate where
  "scenario_update = \<lparr>docChanged = True, viewportChanged = False, selectionSet = True,
     transactions = [\<lparr>isUserEvent_input = True\<rparr>],
     startState = scenario_state\<lparr>doc := str ''Note [[Target|@Foo] end'',
                    selection := \<lparr>anchor = 19, head = 19\<rparr>\<rparr>,
     state = scenario_state\<rparr>"

text \<open>
  Rules and an annotation template for the Annotation Builder: the rule of the spec's
  no-match scenario, a rule with the empty prefix, and a template that already has a
  classification attribute.
\<close>

definition rule_other :: PrefixMapping where
  "rule_other = \<lparr>prefix = str ''other'', emoji = [0xD83D, 0xDE0A], linkType = str ''other'',
     color = str ''#000'', background = str ''#fff'', backgroundAlpha = 1, underline = False\<rparr>"

definition rule_catch_all :: PrefixMapping where
  "rule_catch_all = \<lparr>prefix = [], emoji = [0xD83D, 0xDCCC], linkType = str ''any'',
     color = str ''#000'', background = str ''#fff'', backgroundAlpha = 1, underline = False\<rparr>"

definition template_spec :: MarkDecorationSpec where
  "template_spec = \<lparr>inclusive = Some True,
     attributes = Some [(str ''data-sld-type'', str ''stale''), (str ''title'', str ''note'')],
     spec_class = Some (str ''cm-link''), tagName = None\<rparr>"

text \<open>The cursor at the first child of the scenario's tree, the opening marker.\<close>

definition scenario_cursor :: TreeCursor where
  "scenario_cursor = snd (move_firstChild (tree_cursor (syntaxTree scenario_state)))"

text \<open>
  A variant of the five nodes whose type names have their fragments in another order and
  one fragment more.
\<close>

definition tolerant_cursor :: TreeCursor where
  "tolerant_cursor = \<lparr>node = Node (str ''formatting-link-start_x_formatting-link'') 0 2 [],
     before = [],
     after = [Node (str ''link-has-alias_hmd-internal-link'') 2 3 [],
              Node (str ''hmd-internal-link_y_link-alias-pipe'') 3 4 [],
              Node (str ''hmd-internal-link_link-alias_z'') 4 5 [],
              Node (str ''formatting-link-end_formatting-link'') 5 7 [],
              Node (str ''text'') 7 9 []],
     above = []\<rparr>"

text \<open>
  A rule whose emoji is its prefix, a document whose link has that prefix as its whole
  alias, the update that completes the link and an update that moves the caret out of it.
\<close>

definition rule_hash :: PrefixMapping where
  "rule_hash = \<lparr>prefix = str ''#'', emoji = str ''#'', linkType = str ''tag'',
     color = str ''#000'', background = str ''#fff'', backgroundAlpha = 1, underline = False\<rparr>"

definition guard_state :: EditorState where
  "guard_state = \<lparr>doc = str ''[[T|#]] x'', selection = \<lparr>anchor = 7, head = 7\<rparr>,
     syntaxTree = Node (str ''Document'') 0 9 [],
     facet_inputs = [[rule_hash]], facet_ref = 1\<rparr>"

definition guard_completion :: ViewUpdate where
  "guard_completion = \<lparr>docChanged = True, viewportChanged = False, selectionSet = True,
     transactions = [\<lparr>isUserEvent_input = True\<rparr>],
     startState = guard_state\<lparr>doc := str ''[[T|#] x'', selection := \<lparr>anchor = 6, head = 6\<rparr>\<rparr>,
     state = guard_state\<rparr>"

definition guard_exit :: ViewUpdate where
  "guard_exit = \<lparr>docChanged = False, viewportChanged = False, selectionSet = True,
     transactions = [],
     startState = guard_state\<lparr>selection := \<lparr>anchor = 4, head = 4\<rparr>\<rparr>,
     state = guard_state\<lparr>selection := \<lparr>anchor = 9, head = 9\<rparr>\<rparr>\<rparr>"

definition guard_link :: Link where
  "guard_link = \<lparr>link_from = 0, link_to = 7, link_text = str ''[[T|#]]''\<rparr>"

text \<open>A caret that moves in the scenario's document, with nothing else changed.\<close>

definition caret_exit_update :: "nat \<Rightarrow> nat \<Rightarrow> ViewUpdate" where
  "caret_exit_update prevPos nextPos = \<lparr>docChanged = False, viewportChanged = False,
     selectionSet = True, transactions = [],
     startState = scenario_state\<lparr>selection := \<lparr>anchor = prevPos, head = prevPos\<rparr>\<rparr>,
     state = scenario_state\<lparr>selection := \<lparr>anchor = nextPos, head = nextPos\<rparr>\<rparr>\<rparr>"

text \<open>The annotation of the scenario's link.\<close>

definition person_mark :: Decoration where
  "person_mark = Mark \<lparr>inclusive = None,
     attributes = Some [(str ''data-sld-type'', str ''person'')],
     spec_class = None, tagName = None\<rparr>"

section \<open>Lemmas\<close>

subsection \<open>Facts about the insertion-ordered map\<close>

lemma map_set_keys:
  "map fst (map_set m k v) = (if k \<in> set (map fst m) then map fst m else map fst m @ [k])"
  by (induction m) force+

lemma map_set_map_of: "map_of (map_set m k v) = (map_of m)(k \<mapsto> v)"
  by (induction m) (auto simp: fun_eq_iff)

lemma map_set_distinct: "distinct (map fst m) \<Longrightarrow> distinct (map fst (map_set m k v))"
  by (simp add: map_set_keys)

lemma foldl_nested_concat:
  "foldl (\<lambda>acc xs. foldl f acc xs) a xss = foldl f a (concat xss)"
  by (induction xss arbitrary: a) simp_all

lemma combine_flat: "combine vals = map snd (foldl combine_step [] (concat vals))"
  by (simp add: combine_def map_values_def foldl_nested_concat)

lemma fold_keys_distinct: "distinct (map fst (foldl combine_step [] ms))"
proof (induction ms rule: rev_induct)
  case Nil
  show ?case by simp
next
  case (snoc x xs)
  then show ?case by (simp add: combine_step_def map_set_distinct)
qed

lemma fold_keys:
  "map fst (foldl combine_step [] ms) = first_insertion_order (map prefix ms)"
proof (induction ms rule: rev_induct)
  case Nil
  show ?case by (simp add: first_insertion_order_def)
next
  case (snoc x xs)
  have "set (map fst (foldl combine_step [] xs)) = set (map prefix xs)"
    by (simp add: snoc first_insertion_order_def)
  then show ?case
    using snoc by (auto simp: combine_step_def map_set_keys first_insertion_order_def)
qed

lemma fold_map_of: "map_of (foldl combine_step [] ms) k = last_write ms k"
proof (induction ms rule: rev_induct)
  case Nil
  show ?case by (simp add: last_write_def)
next
  case (snoc x xs)
  then show ?case by (simp add: combine_step_def map_set_map_of last_write_def)
qed

lemma last_write_prefix: "last_write ms k = Some m \<Longrightarrow> prefix m = k"
  by (auto simp: last_write_def find_Some_iff)

lemma fold_entry_key:
  assumes "(k, m) \<in> set (foldl combine_step [] ms)"
  shows "last_write ms k = Some m"
proof -
  have "map_of (foldl combine_step [] ms) k = Some m"
    using assms fold_keys_distinct by (simp add: map_of_eq_Some_iff)
  then show ?thesis by (simp add: fold_map_of)
qed

lemma combine_keys: "map prefix (combine vals) = map fst (foldl combine_step [] (concat vals))"
proof -
  have "\<forall>e \<in> set (foldl combine_step [] (concat vals)). prefix (snd e) = fst e"
    using fold_entry_key last_write_prefix by fastforce
  then show ?thesis by (simp add: combine_flat)
qed

lemma combine_last_write:
  assumes "m \<in> set (combine vals)"
  shows "last_write (concat vals) (prefix m) = Some m"
proof -
  from assms obtain k where km: "(k, m) \<in> set (foldl combine_step [] (concat vals))"
    by (auto simp: combine_flat)
  then have lw: "last_write (concat vals) k = Some m"
    by (rule fold_entry_key)
  then have "prefix m = k"
    by (rule last_write_prefix)
  with lw show ?thesis by simp
qed

subsection \<open>Object spread and the first matching rule\<close>

lemma spread_map_of:
  "distinct (map fst s) \<Longrightarrow> map_of (spread t s) = map_of t ++ map_of s"
proof (induction s arbitrary: t)
  case Nil
  show ?case by (simp add: spread_def)
next
  case (Cons e es)
  obtain k v where e: "e = (k, v)" by (cases e)
  from Cons.prems have d: "distinct (map fst es)" and k: "map_of es k = None"
    by (simp_all add: e map_of_eq_None_iff)
  have "map_of (spread t (e # es)) = map_of (spread (map_set t k v) es)"
    by (simp add: spread_def e)
  also have "\<dots> = map_of (map_set t k v) ++ map_of es"
    using d by (rule Cons.IH)
  also have "\<dots> = map_of t ++ map_of (e # es)"
    using k by (auto simp: map_set_map_of e fun_eq_iff map_add_def split: option.splits)
  finally show ?case .
qed

lemma newspec_attributes:
  assumes "distinct (map fst (spec_attributes spec))"
  shows "map_of (spec_attributes (newspec spec setting))
     = map_of (spec_attributes spec) ++ [DATA_SLD_TYPE \<mapsto> linkType setting]"
proof -
  have "spec_attributes (newspec spec setting)
      = spread (spread [] (spec_attributes spec)) [(DATA_SLD_TYPE, linkType setting)]"
    by (simp add: newspec_def spec_attributes_def)
  then show ?thesis
    using assms by (simp add: spread_map_of)
qed

lemma decorate_first:
  assumes "\<forall>x \<in> set pre. \<not> (startsWith a (prefix x) \<or> startsWith a (emoji x))"
    and "startsWith a (prefix r) \<or> startsWith a (emoji r)"
  shows "decorate b (pre @ r # post) sp a f t = builder_add b f t (Mark (newspec sp r))"
  using assms by (induction pre) auto

lemma decorate_none:
  assumes "\<forall>x \<in> set R. \<not> (startsWith a (prefix x) \<or> startsWith a (emoji x))"
  shows "decorate b R sp a f t = b"
  using assms by (induction R) auto

subsection \<open>The matcher on the store\<close>

lemma getFragments_last [simp]:
  "getFragments (h @ [c]) (length h) = split (type_name (node c)) UNDERSCORE"
  by (simp add: getFragments_def)

lemma nextSibling_last [simp]:
  "nextSibling (h @ [c]) (length h) =
     (case after c of
        [] \<Rightarrow> (False, h @ [c])
      | n # ns \<Rightarrow> (True, h @ [c\<lparr>node := n, before := node c # before c, after := ns\<rparr>]))"
  by (simp add: nextSibling_def move_nextSibling_def split: list.splits)

lemma node_cursor_last [simp]:
  "node_cursor (h @ [c]) (length h) = (Suc (length h), h @ [c, c])"
  by (simp add: node_cursor_def)

lemma role_simps:
  "isFLinkStart (split nm UNDERSCORE) = has_role nm FLINK FLINKSTART"
  "isInternalLinkWithAlias (split nm UNDERSCORE) = has_role nm ILINK LINKHASALIAS"
  "isInternalLinksPipe (split nm UNDERSCORE) = has_role nm ILINK LINKALIASPIPE"
  "isInternalLinksAlias (split nm UNDERSCORE) = has_role nm ILINK LINKALIAS"
  "isFLinkEnd (split nm UNDERSCORE) = has_role nm FLINK FLINKEND"
  by (simp_all add: isFLinkStart_def isInternalLinkWithAlias_def isInternalLinksPipe_def
      isInternalLinksAlias_def isFLinkEnd_def has_role_def array_includes_def)

lemma matches_value:
  "matchesInternalLink h cursor =
     (let c = h ! cursor;
          names = map type_name (node c # after c);
          k = roles_matched ROLES names;
          p = siblings_moved (min k (min 4 (length (after c)))) c
      in if k = 5 then (Some (Suc (length h)), h @ [p, p]) else (None, h @ [p]))"
  unfolding matchesInternalLink_def node_cursor_def [of h] Let_def prod.case onMatchContinue_def
  apply (cases "after (h ! cursor)")
   apply (simp add: role_simps ROLES_def siblings_moved_def)
  subgoal for n2 r2
    apply (cases r2)
     apply (simp add: role_simps ROLES_def siblings_moved_def)
    subgoal for n3 r3
      apply (cases r3)
       apply (simp add: role_simps ROLES_def siblings_moved_def)
      subgoal for n4 r4
        apply (cases r4)
         apply (simp add: role_simps ROLES_def siblings_moved_def)
        subgoal for n5 r5
          apply (simp add: role_simps ROLES_def siblings_moved_def)
          done
        done
      done
    done
  done

subsection \<open>The link-completion scenario\<close>

lemma scenario_completed:
  "extractCompletedWikilink scenario_doc 20 = Some scenario_link"
  by code_simp

lemma scenario_tail:
  "sliceString scenario_doc (nat (max 0 (int 20 - 2))) 20 = str '']]''"
  by code_simp

lemma scenario_enclosing:
  "\<forall>p \<in> set [0..<25]. findEnclosingWikilink scenario_doc p
      = (if 5 \<le> p \<and> p \<le> 20 then Some scenario_link else None)"
  by code_simp

lemma scenario_pipe: "indexOf (str ''[[Target|@Foo]]'') (str ''|'') 0 = Some 8"
  by code_simp

lemma scenario_alias: "slice (str ''[[Target|@Foo]]'') (int (8 + 1)) (- 2) = str ''@Foo''"
  by code_simp

lemma scenario_length: "length scenario_doc = 24"
  by code_simp

lemma scenario_open: "lastIndexOf scenario_doc (str ''[['') 24 = Some 5"
  by code_simp

lemma scenario_close: "indexOf scenario_doc (str '']]'') 5 = Some 18"
  by code_simp

lemma scenario_enclosing_far:
  assumes "24 < p"
  shows "findEnclosingWikilink scenario_doc p = None"
proof -
  have "lastIndexOf scenario_doc (str ''[['') (int p) = lastIndexOf scenario_doc (str ''[['') 24"
    using assms by (simp add: lastIndexOf_def scenario_length min_def)
  then show ?thesis
    using assms by (simp add: findEnclosingWikilink_def scenario_open scenario_close)
qed

lemma scenario_enclosing_all:
  "findEnclosingWikilink scenario_doc p
     = (if 5 \<le> p \<and> p \<le> 20 then Some scenario_link else None)"
proof (cases "24 < p")
  case True
  then show ?thesis by (simp add: scenario_enclosing_far)
next
  case False
  then have "p \<in> set [0..<25]" by simp
  then show ?thesis using scenario_enclosing by blast
qed

lemma foldl_input_transactions:
  "foldl (\<lambda>q tr. if \<not> isUserEvent_input tr then q else f q) q trs
     = (f ^^ length (filter isUserEvent_input trs)) q"
  by (induction trs arbitrary: q) (simp_all add: funpow_swap1)

lemma scenario_extractAlias:
  assumes "facet (state u) = [r]" "prefix r = str ''@''"
  shows "extractAlias u (link_text scenario_link) (link_from scenario_link)
           = Some \<lparr>alias_text = str ''@Foo'', alias_from = 14, prefixLength = 1\<rparr>"
proof -
  have "startsWith (str ''@Foo'') (str ''@'')" by code_simp
  moreover have "str ''@Foo'' \<noteq> []" "length (str ''@'') = 1" by (simp_all add: str_def)
  ultimately show ?thesis
    using assms
    by (simp add: extractAlias_def scenario_link_def scenario_pipe scenario_alias [simplified])
qed

lemma scenario_facet: "facet scenario_state = [rule_person]"
  by (simp add: facet_def scenario_state_def combine_def map_values_def combine_step_def)

subsection \<open>The parser accepts exactly the language of its regular expression\<close>

lemma takeWhile_stop:
  "\<forall>x \<in> set xs. P x \<Longrightarrow> \<not> P y \<Longrightarrow> takeWhile P (xs @ y # ys) = xs"
  by (induction xs) simp_all

lemma dropWhile_stop:
  "\<forall>x \<in> set xs. P x \<Longrightarrow> \<not> P y \<Longrightarrow> dropWhile P (xs @ y # ys) = y # ys"
  by (induction xs) simp_all

lemma regex_complete:
  assumes "wiki_link_shape s A B"
  shows "WIKI_LINK_REGEX s = Some (A, B)"
proof -
  let ?P = "\<lambda>c. c \<noteq> PIPE \<and> c \<noteq> RBRACKET"
  let ?Q = "\<lambda>c. c \<noteq> RBRACKET"
  have s: "s = LBRACKET # LBRACKET # A @ PIPE # B @ [RBRACKET, RBRACKET]"
    and A: "\<forall>x \<in> set A. ?P x" and B: "\<forall>x \<in> set B. ?Q x"
    using assms by (auto simp: wiki_link_shape_def)
  have 1: "takeWhile ?P (A @ PIPE # B @ [RBRACKET, RBRACKET]) = A"
    using A by (rule takeWhile_stop) simp
  have 2: "dropWhile ?P (A @ PIPE # B @ [RBRACKET, RBRACKET]) = PIPE # B @ [RBRACKET, RBRACKET]"
    using A by (rule dropWhile_stop) simp
  have 3: "takeWhile ?Q (B @ [RBRACKET, RBRACKET]) = B"
    using B by (simp add: takeWhile_stop)
  have 4: "dropWhile ?Q (B @ [RBRACKET, RBRACKET]) = [RBRACKET, RBRACKET]"
    using B by (simp add: dropWhile_stop)
  show ?thesis
    unfolding s WIKI_LINK_REGEX_def list.case Let_def 1 2 3 4 by simp
qed

lemma regex_sound:
  assumes "WIKI_LINK_REGEX s = Some (A, B)"
  shows "wiki_link_shape s A B"
proof -
  let ?P = "\<lambda>c. c \<noteq> PIPE \<and> c \<noteq> RBRACKET"
  let ?Q = "\<lambda>c. c \<noteq> RBRACKET"
  obtain rest where s: "s = LBRACKET # LBRACKET # rest"
  proof (cases s)
    case Nil
    with assms show ?thesis by (simp add: WIKI_LINK_REGEX_def)
  next
    case (Cons a s')
    note c1 = this
    show ?thesis
    proof (cases s')
      case Nil
      with assms c1 show ?thesis by (simp add: WIKI_LINK_REGEX_def)
    next
      case (Cons b rest)
      note c2 = this
      have "a = LBRACKET \<and> b = LBRACKET"
      proof (rule ccontr)
        assume "\<not> (a = LBRACKET \<and> b = LBRACKET)"
        then have "WIKI_LINK_REGEX (a # b # rest) = None"
          unfolding WIKI_LINK_REGEX_def by (simp only: list.case if_False)
        with assms c1 c2 show False by simp
      qed
      with c1 c2 that show ?thesis by simp
    qed
  qed
  have m: "(case dropWhile ?P rest of
              p # r2 \<Rightarrow>
                if p = PIPE then
                  (if dropWhile ?Q r2 = [RBRACKET, RBRACKET]
                   then Some (takeWhile ?P rest, takeWhile ?Q r2) else None)
                else None
            | [] \<Rightarrow> None) = Some (A, B)"
    using assms unfolding s WIKI_LINK_REGEX_def by (simp only: list.case Let_def if_True simp_thms)
  obtain r2 where r1: "dropWhile ?P rest = PIPE # r2"
    using m by (cases "dropWhile ?P rest") (simp_all only: list.case split: if_splits, simp_all)
  have A: "A = takeWhile ?P rest"
    and B: "B = takeWhile ?Q r2"
    and r3: "dropWhile ?Q r2 = [RBRACKET, RBRACKET]"
    using m unfolding r1 by (simp_all only: list.case if_True split: if_splits, simp_all)
  have "rest = A @ PIPE # r2"
    using takeWhile_dropWhile_id [of ?P rest] by (simp only: A r1)
  moreover have "r2 = B @ [RBRACKET, RBRACKET]"
    using takeWhile_dropWhile_id [of ?Q r2] by (simp only: B r3)
  moreover have "PIPE \<notin> set A" "RBRACKET \<notin> set A"
    using set_takeWhileD [of _ ?P rest] unfolding A by blast+
  moreover have "RBRACKET \<notin> set B"
    using set_takeWhileD [of _ ?Q r2] unfolding B by blast
  ultimately show ?thesis
    by (simp add: wiki_link_shape_def s)
qed

lemma parse_shape: "wiki_link_shape s A B \<Longrightarrow> parseWikiLink s = (A, B)"
  by (simp add: parseWikiLink_def regex_complete)

lemma parse_no_shape:
  assumes "\<And>A B. \<not> wiki_link_shape s A B"
  shows "parseWikiLink s = ([], [])"
proof (cases "WIKI_LINK_REGEX s")
  case None
  then show ?thesis by (simp add: parseWikiLink_def)
next
  case (Some g)
  then have "wiki_link_shape s (fst g) (snd g)"
    by (simp add: regex_sound)
  with assms show ?thesis by blast
qed

lemma str_brackets:
  "str ''[['' = [LBRACKET, LBRACKET]" "str '']]'' = [RBRACKET, RBRACKET]"
  by (simp_all add: str_def LBRACKET_def RBRACKET_def)

lemma shape_pipe: "wiki_link_shape s A B \<Longrightarrow> PIPE \<in> set s"
  by (simp add: wiki_link_shape_def)

lemma shape_starts: "wiki_link_shape s A B \<Longrightarrow> startsWith s (str ''[['')"
  by (simp add: wiki_link_shape_def startsWith_def str_brackets)

lemma shape_ends: "wiki_link_shape s A B \<Longrightarrow> endsWith s (str '']]'')"
  by (simp add: wiki_link_shape_def endsWith_def str_brackets)

lemma shape_inner:
  assumes "wiki_link_shape s A B" and "s = str ''[['' @ X @ str '']]''"
  shows "RBRACKET \<notin> set X"
proof -
  from assms have "X = A @ [PIPE] @ B"
    by (simp add: wiki_link_shape_def str_brackets)
  with assms(1) show ?thesis
    by (auto simp: wiki_link_shape_def PIPE_def RBRACKET_def)
qed

subsection \<open>The five roles\<close>

lemma five_roles_matched: "five_roles names \<longleftrightarrow> roles_matched ROLES names = 5"
  by (cases names rule: five_roles.cases) (auto simp: ROLES_def)

subsection \<open>The scenario of the idempotence guard and of the caret leaving a link\<close>

lemma guard_facet: "facet guard_state = [rule_hash]"
  by (simp add: facet_def guard_state_def combine_def map_values_def combine_step_def)

lemma guard_extractAlias:
  assumes "facet (state u) = [rule_hash]"
  shows "extractAlias u (link_text guard_link) (link_from guard_link)
           = Some \<lparr>alias_text = str ''#'', alias_from = 4, prefixLength = 1\<rparr>"
proof -
  have "indexOf (str ''[[T|#]]'') (str ''|'') 0 = Some 3" by code_simp
  moreover have "slice (str ''[[T|#]]'') (int (3 + 1)) (- 2) = str ''#''" by code_simp
  moreover have "startsWith (str ''#'') (str ''#'')" by code_simp
  moreover have "str ''#'' \<noteq> []" "length (str ''#'') = 1" by (simp_all add: str_def)
  ultimately show ?thesis
    using assms
    by (simp add: extractAlias_def guard_link_def rule_hash_def)
qed

lemma guard_resolveEmoji:
  assumes "facet (state u) = [rule_hash]"
  shows "resolveEmoji u (str ''#'') = Some (str ''#'')"
  using assms by (simp add: resolveEmoji_def rule_hash_def startsWith_def)

lemma caret_exit_outside:
  "handleCaretExit (caret_exit_update 10 21) []
     = [\<lparr>changes_from = 14, changes_to = 15, changes_insert = person_emoji,
         spec_selection = \<lparr>anchor = 21, head = 21\<rparr>, spec_userEvent = str ''input''\<rparr>]"
proof -
  let ?u = "caret_exit_update 10 21"
  have fa: "facet (state ?u) = [rule_person]"
    by (simp add: caret_exit_update_def facet_def scenario_state_def combine_def map_values_def
        combine_step_def)
  have ea: "extractAlias ?u (link_text scenario_link) (link_from scenario_link)
              = Some \<lparr>alias_text = str ''@Foo'', alias_from = 14, prefixLength = 1\<rparr>"
    using fa by (rule scenario_extractAlias) (simp add: rule_person_def)
  have st: "startsWith (str ''@Foo'') (str ''@'')" by code_simp
  have ne: "str ''@Foo'' \<noteq> person_emoji" by (simp add: str_def person_emoji_def)
  have re: "resolveEmoji ?u (str ''@Foo'') = Some person_emoji"
    by (simp add: resolveEmoji_def fa rule_person_def st)
  have pe: "person_emoji \<noteq> []" by (simp add: person_emoji_def)
  have pa: "processAlias ?u scenario_link []
              = [\<lparr>changes_from = 14, changes_to = 15, changes_insert = person_emoji,
                   spec_selection = \<lparr>anchor = 21, head = 21\<rparr>,
                   spec_userEvent = str ''input''\<rparr>]"
    by (simp add: processAlias_def ea re ne pe) (simp add: caret_exit_update_def)
  have e: "range_empty (selection (startState ?u))" "range_empty (selection (state ?u))"
    by (simp_all add: caret_exit_update_def range_empty_def range_start_def range_end_def)
  have f: "findEnclosingWikilink (doc (state ?u)) (range_start (selection (startState ?u)))
             = Some scenario_link"
    by (simp add: caret_exit_update_def scenario_state_def range_start_def scenario_enclosing_all)
  have s: "range_start (selection (state ?u)) = 21" "range_start (selection (startState ?u)) = 10"
    by (simp_all add: caret_exit_update_def range_start_def)
  have l: "link_from scenario_link = 5" "link_to scenario_link = 20"
    by (simp_all add: scenario_link_def)
  show ?thesis
    using f by (simp add: handleCaretExit_def Let_def e s l pa)
qed

subsection \<open>The walker and the builder on the scenario\<close>

lemma scenario_walk:
  "findWikiLinks scenario_state (tree_cursor (syntaxTree scenario_state))
     (\<lambda>f t fname a acc. acc @ [(f, t, fname, a)]) []
   = [(5, 20, str ''Target'', str ''@Foo'')]"
  by code_simp

lemma scenario_decorations:
  "buildLinkDecorations scenario_state [rule_person]
     = [\<lparr>range_from = 5, range_to = 20, range_value = person_mark\<rparr>]"
  by code_simp

lemma decorator_update_rebuilds:
  assumes "docChanged u \<or> viewportChanged u \<or> facet_ref (startState u) \<noteq> facet_ref (state u)"
  shows "decorations (CMLinkDecoratorPlugin_update u this)
           = buildLinkDecorations (state u) (facet (state u))"
  using assms by (auto simp: CMLinkDecoratorPlugin_update_def)

section \<open>Theorems\<close>

text \<open>
  C1.  The document is \<open>Note [[Target|@Foo]] end\<close>, the Rule Set has the one rule with
  prefix \<open>@\<close>, emoji U+1F464 (two code units) and link type \<open>person\<close>, the update
  changed the document through one user-input transaction and leaves a caret at offset 20,
  right after \<open>]]\<close>.  Then the completed link \<open>[[Target|@Foo]]\<close> at 5..20 is found,
  its alias is \<open>@Foo\<close> at offset 14 with a prefix of length 1, and the completion
  detector, and with it the whole update, queues exactly one deferred mutation: the
  replacement of the range 14..15 by the emoji.  That mutation turns the document into
  \<open>Note [[Target|\<close>, the emoji, \<open>Foo]] end\<close>.  This holds for every earlier selection
  and whether or not the update set the selection.
\<close>

theorem link_completion_scenario:
  assumes d: "doc (state u) = str ''Note [[Target|@Foo]] end''"
    and rs: "facet (state u) = [r]"
    and r: "prefix r = str ''@''" "emoji r = [0xD83D, 0xDC64]" "linkType r = str ''person''"
    and ch: "docChanged u"
    and tr: "length (filter isUserEvent_input (transactions u)) = 1"
    and caret: "selection (state u) = \<lparr>anchor = 20, head = 20\<rparr>"
  shows "extractCompletedWikilink (doc (state u)) 20
           = Some \<lparr>link_from = 5, link_to = 20, link_text = str ''[[Target|@Foo]]''\<rparr>
     \<and> extractAlias u (str ''[[Target|@Foo]]'') 5
           = Some \<lparr>alias_text = str ''@Foo'', alias_from = 14, prefixLength = 1\<rparr>
     \<and> handleLinkCompletion u q
           = q @ [\<lparr>changes_from = 14, changes_to = 15, changes_insert = [0xD83D, 0xDC64],
                   spec_selection = \<lparr>anchor = 20, head = 20\<rparr>,
                   spec_userEvent = str ''input''\<rparr>]
     \<and> CMLinkAliasReplacementPlugin_update u q
           = q @ [\<lparr>changes_from = 14, changes_to = 15, changes_insert = [0xD83D, 0xDC64],
                   spec_selection = \<lparr>anchor = 20, head = 20\<rparr>,
                   spec_userEvent = str ''input''\<rparr>]
     \<and> dispatch (doc (state u))
           \<lparr>changes_from = 14, changes_to = 15, changes_insert = [0xD83D, 0xDC64],
            spec_selection = \<lparr>anchor = 20, head = 20\<rparr>, spec_userEvent = str ''input''\<rparr>
           = Some (str ''Note [[Target|'' @ [0xD83D, 0xDC64] @ str ''Foo]] end'')"
proof -
  have d': "doc (state u) = scenario_doc"
    by (simp add: d scenario_doc_def)
  have e: "range_empty (selection (state u))" and p: "range_start (selection (state u)) = 20"
    by (simp_all add: caret range_empty_def range_start_def range_end_def)
  have ea: "extractAlias u (link_text scenario_link) (link_from scenario_link)
              = Some \<lparr>alias_text = str ''@Foo'', alias_from = 14, prefixLength = 1\<rparr>"
    using rs r(1) by (rule scenario_extractAlias)
  have st: "startsWith (str ''@Foo'') (str ''@'')" by code_simp
  have ne: "str ''@Foo'' \<noteq> [0xD83D, 0xDC64]" by (simp add: str_def)
  have re: "resolveEmoji u (str ''@Foo'') = Some [0xD83D, 0xDC64]"
    by (simp add: resolveEmoji_def rs r st)
  have pa: "processAlias u scenario_link q'
              = q' @ [\<lparr>changes_from = 14, changes_to = 15, changes_insert = [0xD83D, 0xDC64],
                   spec_selection = \<lparr>anchor = 20, head = 20\<rparr>,
                   spec_userEvent = str ''input''\<rparr>]" for q'
    by (simp add: processAlias_def ea re ne caret)
  have hl: "handleLinkCompletion u q'
              = q' @ [\<lparr>changes_from = 14, changes_to = 15, changes_insert = [0xD83D, 0xDC64],
                   spec_selection = \<lparr>anchor = 20, head = 20\<rparr>,
                   spec_userEvent = str ''input''\<rparr>]" for q'
    using scenario_tail
    by (simp add: handleLinkCompletion_def e p d' scenario_completed pa)
  have hc: "handleCaretExit u q' = q'" for q'
    by (simp add: handleCaretExit_def Let_def d' p scenario_enclosing_all scenario_link_def)
  have up: "CMLinkAliasReplacementPlugin_update u q
           = q @ [\<lparr>changes_from = 14, changes_to = 15, changes_insert = [0xD83D, 0xDC64],
                   spec_selection = \<lparr>anchor = 20, head = 20\<rparr>,
                   spec_userEvent = str ''input''\<rparr>]"
    by (simp add: CMLinkAliasReplacementPlugin_update_def Let_def ch foldl_input_transactions tr hl hc)
  have di: "dispatch scenario_doc
           \<lparr>changes_from = 14, changes_to = 15, changes_insert = [0xD83D, 0xDC64],
            spec_selection = \<lparr>anchor = 20, head = 20\<rparr>, spec_userEvent = str ''input''\<rparr>
           = Some (str ''Note [[Target|'' @ [0xD83D, 0xDC64] @ str ''Foo]] end'')"
    by code_simp
  show ?thesis
    using scenario_completed ea hl [of q] up di
    by (simp add: d' scenario_link_def)
qed

theorem link_completion_scenario_witness:
  "CMLinkAliasReplacementPlugin_update scenario_update []
     = [\<lparr>changes_from = 14, changes_to = 15, changes_insert = [0xD83D, 0xDC64],
         spec_selection = \<lparr>anchor = 20, head = 20\<rparr>, spec_userEvent = str ''input''\<rparr>]
   \<and> dispatch scenario_doc
         \<lparr>changes_from = 14, changes_to = 15, changes_insert = [0xD83D, 0xDC64],
          spec_selection = \<lparr>anchor = 20, head = 20\<rparr>, spec_userEvent = str ''input''\<rparr>
       = Some (str ''Note [[Target|'' @ [0xD83D, 0xDC64] @ str ''Foo]] end'')"
proof -
  have "doc (state scenario_update) = str ''Note [[Target|@Foo]] end''"
    and "facet (state scenario_update) = [rule_person]"
    and "prefix rule_person = str ''@''" and "emoji rule_person = [0xD83D, 0xDC64]"
    and "linkType rule_person = str ''person''"
    and "docChanged scenario_update"
    and "length (filter isUserEvent_input (transactions scenario_update)) = 1"
    and "selection (state scenario_update) = \<lparr>anchor = 20, head = 20\<rparr>"
    by (simp_all add: scenario_update_def scenario_facet rule_person_def person_emoji_def)
      (simp_all add: scenario_state_def scenario_doc_def)
  from link_completion_scenario [OF this, of "[]"] show ?thesis
    by (simp add: scenario_update_def scenario_state_def)
qed

text \<open>
  C2.  For a Rule Set, an alias and a span: when no rule before \<open>r\<close> has a prefix or an
  emoji that the alias starts with and \<open>r\<close> has one, the builder receives exactly one
  more range, the span with the annotation made from \<open>r\<close>, whatever rules follow
  \<open>r\<close>.  When no rule of the Rule Set matches, the builder is left as it was.  A rule
  whose prefix or emoji is empty matches every alias, so at the head of the Rule Set it is
  the rule selected.
\<close>

theorem decorate_first_match:
  "((\<forall>x \<in> set pre. \<not> startsWith a (prefix x) \<and> \<not> startsWith a (emoji x))
      \<and> (startsWith a (prefix r) \<or> startsWith a (emoji r))
     \<longrightarrow> decorate b (pre @ r # post) sp a f t
           = b @ [\<lparr>range_from = f, range_to = t, range_value = Mark (newspec sp r)\<rparr>])
   \<and> ((\<forall>x \<in> set R. \<not> startsWith a (prefix x) \<and> \<not> startsWith a (emoji x))
     \<longrightarrow> decorate b R sp a f t = b)
   \<and> (prefix r' = [] \<or> emoji r' = []
     \<longrightarrow> (startsWith a (prefix r') \<or> startsWith a (emoji r'))
         \<and> decorate b (r' # post') sp a f t
           = b @ [\<lparr>range_from = f, range_to = t, range_value = Mark (newspec sp r')\<rparr>])"
  using decorate_first [of pre a r b post sp f t] decorate_none [of R a b sp f t]
  by (auto simp: builder_add_def startsWith_def)

theorem decorate_first_match_witness:
  "decorate [] [rule_location, rule_person, rule_catch_all] empty_spec (str ''@Foo'') 5 20
     = [\<lparr>range_from = 5, range_to = 20, range_value = Mark (newspec empty_spec rule_person)\<rparr>]
   \<and> decorate [] [rule_other] empty_spec (str ''no-match'') 5 20 = []
   \<and> decorate [] [rule_catch_all, rule_person] empty_spec (str ''@Foo'') 5 20
     = [\<lparr>range_from = 5, range_to = 20, range_value = Mark (newspec empty_spec rule_catch_all)\<rparr>]"
proof -
  have 1: "\<forall>x \<in> set [rule_location]. \<not> startsWith (str ''@Foo'') (prefix x)
              \<and> \<not> startsWith (str ''@Foo'') (emoji x)"
    by (simp add: rule_location_def startsWith_def str_def)
  have 2: "startsWith (str ''@Foo'') (prefix rule_person)
             \<or> startsWith (str ''@Foo'') (emoji rule_person)"
    by (simp add: rule_person_def startsWith_def str_def)
  have 3: "\<forall>x \<in> set [rule_other]. \<not> startsWith (str ''no-match'') (prefix x)
              \<and> \<not> startsWith (str ''no-match'') (emoji x)"
    by (simp add: rule_other_def startsWith_def str_def)
  have 4: "prefix rule_catch_all = [] \<or> emoji rule_catch_all = []"
    by (simp add: rule_catch_all_def)
  have A: "decorate [] ([rule_location] @ rule_person # [rule_catch_all]) empty_spec
              (str ''@Foo'') 5 20
            = [] @ [\<lparr>range_from = 5, range_to = 20,
                      range_value = Mark (newspec empty_spec rule_person)\<rparr>]"
    and C: "decorate [] (rule_catch_all # [rule_person]) empty_spec (str ''@Foo'') 5 20
            = [] @ [\<lparr>range_from = 5, range_to = 20,
                      range_value = Mark (newspec empty_spec rule_catch_all)\<rparr>]"
    using 1 2 4
      decorate_first_match [where pre = "[rule_location]" and a = "str ''@Foo''"
        and r = rule_person and b = "[]" and post = "[rule_catch_all]" and sp = empty_spec
        and f = 5 and t = 20 and R = "[]" and r' = rule_catch_all and post' = "[rule_person]"]
    by blast+
  have B: "decorate [] [rule_other] empty_spec (str ''no-match'') 5 20 = []"
    using 3 4
      decorate_first_match [where pre = "[]" and a = "str ''no-match''"
        and r = rule_catch_all and b = "[]" and post = "[]" and sp = empty_spec
        and f = 5 and t = 20 and R = "[rule_other]" and r' = rule_catch_all and post' = "[]"]
    by blast
  from A B C show ?thesis
    by simp
qed

text \<open>
  C3.  The merge writes every rule under its prefix and the last write wins: each rule of
  the output is the last rule of the flattened contributions with its prefix.  The keys of
  the output stand in the order of their first insertion, so an overwriting rule takes the
  place of the rule it replaces.  Two contributors \<open>[A]\<close> and \<open>[B]\<close> whose rules
  both have the prefix \<open>>\<close> merge to the one-element Rule Set \<open>[B]\<close>.
\<close>

theorem combine_last_write_first_order:
  "map prefix (combine vals) = first_insertion_order (map prefix (concat vals))
   \<and> (\<forall>m \<in> set (combine vals). last_write (concat vals) (prefix m) = Some m)
   \<and> (prefix A = str ''>'' \<and> prefix B = str ''>''
        \<longrightarrow> length (combine [[A], [B]]) = 1 \<and> combine [[A], [B]] = [B])"
proof (intro conjI)
  show "map prefix (combine vals) = first_insertion_order (map prefix (concat vals))"
    by (simp add: combine_keys fold_keys)
  show "\<forall>m \<in> set (combine vals). last_write (concat vals) (prefix m) = Some m"
    by (simp add: combine_last_write)
  show "prefix A = str ''>'' \<and> prefix B = str ''>''
          \<longrightarrow> length (combine [[A], [B]]) = 1 \<and> combine [[A], [B]] = [B]"
    by (simp add: combine_def map_values_def combine_step_def)
qed

theorem combine_last_write_first_order_witness:
  "combine [[rule_location], [rule_navigation]] = [rule_navigation]
   \<and> length (combine [[rule_location], [rule_navigation]]) = 1
   \<and> linkType (hd (combine [[rule_location], [rule_navigation]])) = str ''navigation''
   \<and> last_write [rule_location, rule_navigation] (str ''>'') = Some rule_navigation"
proof -
  have p: "prefix rule_location = str ''>'' \<and> prefix rule_navigation = str ''>''"
    by (simp add: rule_location_def rule_navigation_def)
  have c: "combine [[rule_location], [rule_navigation]] = [rule_navigation]"
    using p combine_last_write_first_order [of "[[rule_location], [rule_navigation]]"
        rule_location rule_navigation]
    by simp
  have "last_write (concat [[rule_location], [rule_navigation]]) (prefix rule_navigation)
          = Some rule_navigation"
    using c combine_last_write_first_order [of "[[rule_location], [rule_navigation]]"
        rule_location rule_navigation]
    by simp
  with c p show ?thesis
    by (simp add: rule_navigation_def)
qed

text \<open>
  C4.  The cursor is an object of the store.  When the names of its node and of the next
  four siblings have, in this order, the fragment pairs of link start, has-alias,
  alias pipe, alias and link end (each name needs its two fragments among its fragments,
  in any order and among others), the matcher returns a cursor object that did not exist
  before, standing four siblings further, at the end marker.  In every other case (a
  role fails, the roles are in another order, a next sibling is missing) it returns
  \<open>null\<close>.  In both cases every cursor object that existed before the call, the given
  cursor among them, is what it was; the one probe the matcher works on is a new object,
  and it is moved no further than the first node that fails its role or the last sibling
  there is, so no later step is consulted.
\<close>

theorem matchesInternalLink_five_roles:
  assumes "cursor < length h"
  shows "(five_roles (map type_name (node (h ! cursor) # after (h ! cursor)))
           \<longrightarrow> (\<exists>r. fst (matchesInternalLink h cursor) = Some r
                  \<and> length h \<le> r \<and> r < length (snd (matchesInternalLink h cursor))
                  \<and> snd (matchesInternalLink h cursor) ! r = siblings_moved 4 (h ! cursor)
                  \<and> node (snd (matchesInternalLink h cursor) ! r) = after (h ! cursor) ! 3))
     \<and> (\<not> five_roles (map type_name (node (h ! cursor) # after (h ! cursor)))
           \<longrightarrow> fst (matchesInternalLink h cursor) = None)
     \<and> snd (matchesInternalLink h cursor) ! cursor = h ! cursor
     \<and> take (length h) (snd (matchesInternalLink h cursor)) = h
     \<and> snd (matchesInternalLink h cursor) ! length h
         = siblings_moved
             (min (roles_matched ROLES (map type_name (node (h ! cursor) # after (h ! cursor))))
                (min 4 (length (after (h ! cursor)))))
             (h ! cursor)"
proof -
  let ?c = "h ! cursor"
  let ?names = "map type_name (node ?c # after ?c)"
  let ?k = "roles_matched ROLES ?names"
  let ?p = "siblings_moved (min ?k (min 4 (length (after ?c)))) ?c"
  have v: "matchesInternalLink h cursor
             = (if ?k = 5 then (Some (Suc (length h)), h @ [?p, ?p]) else (None, h @ [?p]))"
    by (simp add: matches_value Let_def)
  show ?thesis
  proof (cases "five_roles ?names")
    case True
    then have k: "?k = 5" by (simp add: five_roles_matched)
    from True have "4 \<le> length (after ?c)"
      by (cases "?names" rule: five_roles.cases) auto
    with k have p: "?p = siblings_moved 4 ?c" and n: "node (siblings_moved 4 ?c) = after ?c ! 3"
      by (simp_all add: siblings_moved_def)
    have "matchesInternalLink h cursor = (Some (Suc (length h)), h @ [?p, ?p])"
      using k unfolding v by simp
    with True assms p n k show ?thesis
      by (simp add: nth_append)
  next
    case False
    then have k: "?k \<noteq> 5" by (simp add: five_roles_matched)
    have "matchesInternalLink h cursor = (None, h @ [?p])"
      using k unfolding v by simp
    with False assms show ?thesis
      by (simp add: nth_append)
  qed
qed

theorem matchesInternalLink_five_roles_witness:
  "(\<exists>r. fst (matchesInternalLink [scenario_cursor] 0) = Some r
       \<and> 1 \<le> r
       \<and> node (snd (matchesInternalLink [scenario_cursor] 0) ! r)
           = Node (str ''formatting-link_formatting-link-end'') 18 20 [])
   \<and> snd (matchesInternalLink [scenario_cursor] 0) ! 0 = scenario_cursor
   \<and> fst (matchesInternalLink [siblings_moved 1 scenario_cursor] 0) = None
   \<and> fst (matchesInternalLink [scenario_cursor, tolerant_cursor] 1) \<noteq> None"
proof -
  have 1: "five_roles (map type_name (node ([scenario_cursor] ! 0) # after ([scenario_cursor] ! 0)))"
    by code_simp
  have 2: "\<not> five_roles (map type_name (node ([siblings_moved 1 scenario_cursor] ! 0)
              # after ([siblings_moved 1 scenario_cursor] ! 0)))"
    by code_simp
  have 3: "after ([scenario_cursor] ! 0) ! 3
             = Node (str ''formatting-link_formatting-link-end'') 18 20 []"
    by code_simp
  have 4: "(0::nat) < length [scenario_cursor]" "(0::nat) < length [siblings_moved 1 scenario_cursor]"
    by simp_all
  from 1 3 matchesInternalLink_five_roles [OF 4(1)]
  have A: "\<exists>r. fst (matchesInternalLink [scenario_cursor] 0) = Some r
       \<and> 1 \<le> r
       \<and> node (snd (matchesInternalLink [scenario_cursor] 0) ! r)
           = Node (str ''formatting-link_formatting-link-end'') 18 20 []"
    by auto
  from matchesInternalLink_five_roles [OF 4(1)]
  have B: "snd (matchesInternalLink [scenario_cursor] 0) ! 0 = scenario_cursor"
    by simp
  from 2 matchesInternalLink_five_roles [OF 4(2)]
  have C: "fst (matchesInternalLink [siblings_moved 1 scenario_cursor] 0) = None"
    by blast
  have 5: "five_roles (map type_name (node ([scenario_cursor, tolerant_cursor] ! 1)
              # after ([scenario_cursor, tolerant_cursor] ! 1)))"
    by code_simp
  have 6: "(1::nat) < length [scenario_cursor, tolerant_cursor]"
    by simp
  from 5 matchesInternalLink_five_roles [OF 6]
  have D: "fst (matchesInternalLink [scenario_cursor, tolerant_cursor] 1) \<noteq> None"
    by auto
  from A B C D show ?thesis by blast
qed

text \<open>
  C5, as amended.  The parser maps \<open>[[A|B]]\<close> to \<open>(A, B)\<close>, and any input made of
  \<open>[[\<close>, a target, \<open>|\<close>, an alias and \<open>]]\<close>, with no \<open>|\<close> and no \<open>]\<close> in the
  target and no \<open>]\<close> in the alias, to the target and the alias.  It returns two empty
  strings for every input that has no \<open>|\<close>, that does not begin with \<open>[[\<close>, that does
  not end with \<open>]]\<close>, or that has a \<open>]\<close> between its outer brackets; this last case
  covers every input with a nested link \<open>[[N]]\<close> that is closed inside the span.
\<close>

theorem parseWikiLink_grammar:
  "parseWikiLink (str ''[[A|B]]'') = (str ''A'', str ''B'')
   \<and> (PIPE \<notin> set tgt \<and> RBRACKET \<notin> set tgt \<and> RBRACKET \<notin> set als
        \<longrightarrow> parseWikiLink (str ''[['' @ tgt @ [PIPE] @ als @ str '']]'') = (tgt, als))
   \<and> (PIPE \<notin> set s1 \<longrightarrow> parseWikiLink s1 = ([], []))
   \<and> (\<not> startsWith s2 (str ''[['') \<longrightarrow> parseWikiLink s2 = ([], []))
   \<and> (\<not> endsWith s3 (str '']]'') \<longrightarrow> parseWikiLink s3 = ([], []))
   \<and> (RBRACKET \<in> set X \<longrightarrow> parseWikiLink (str ''[['' @ X @ str '']]'') = ([], []))
   \<and> parseWikiLink (str ''[['' @ Y @ str ''[['' @ N @ str '']]'' @ Z @ str '']]'') = ([], [])"
proof (intro conjI impI)
  show "parseWikiLink (str ''[[A|B]]'') = (str ''A'', str ''B'')"
    by (simp add: parseWikiLink_def WIKI_LINK_REGEX_def str_def LBRACKET_def RBRACKET_def PIPE_def)
  show "parseWikiLink (str ''[['' @ tgt @ [PIPE] @ als @ str '']]'') = (tgt, als)"
    if "PIPE \<notin> set tgt \<and> RBRACKET \<notin> set tgt \<and> RBRACKET \<notin> set als"
    using that by (intro parse_shape) (simp add: wiki_link_shape_def str_brackets)
  show "parseWikiLink s1 = ([], [])" if "PIPE \<notin> set s1"
    using that shape_pipe [of s1] by (intro parse_no_shape) blast
  show "parseWikiLink s2 = ([], [])" if "\<not> startsWith s2 (str ''[['')"
    using that shape_starts [of s2] by (intro parse_no_shape) blast
  show "parseWikiLink s3 = ([], [])" if "\<not> endsWith s3 (str '']]'')"
    using that shape_ends [of s3] by (intro parse_no_shape) blast
  show "parseWikiLink (str ''[['' @ X @ str '']]'') = ([], [])" if "RBRACKET \<in> set X"
    using that shape_inner [of _ _ _ X] by (intro parse_no_shape) blast
  have "RBRACKET \<in> set (Y @ str ''[['' @ N @ str '']]'' @ Z)"
    by (simp add: str_brackets)
  then show "parseWikiLink (str ''[['' @ Y @ str ''[['' @ N @ str '']]'' @ Z @ str '']]'') = ([], [])"
    using shape_inner [of _ _ _ "Y @ str ''[['' @ N @ str '']]'' @ Z"]
    by (intro parse_no_shape) (metis append.assoc)
qed

theorem parseWikiLink_grammar_witness:
  "parseWikiLink (str ''[[InhaltA|InhaltB]]'') = (str ''InhaltA'', str ''InhaltB'')
   \<and> parseWikiLink (str ''[[NurPrefix]]'') = ([], [])
   \<and> parseWikiLink (str ''InhaltA|InhaltB'') = ([], [])
   \<and> parseWikiLink (str ''[[NurPrefix|Alias]'') = ([], [])
   \<and> parseWikiLink (str ''[[A|B[[C]]]]'') = ([], [])"
proof -
  have 1: "PIPE \<notin> set (str ''[[NurPrefix]]'')"
    by (simp add: str_def PIPE_def)
  have 2: "\<not> startsWith (str ''InhaltA|InhaltB'') (str ''[['')"
    by (simp add: str_def startsWith_def)
  have 3: "\<not> endsWith (str ''[[NurPrefix|Alias]'') (str '']]'')"
    by (simp add: str_def endsWith_def)
  have 4: "RBRACKET \<in> set (str ''A|B[[C]]'')"
    by (simp add: str_def RBRACKET_def)
  have 5: "str ''[['' @ str ''A|B[[C]]'' @ str '']]'' = str ''[[A|B[[C]]]]''"
    by (simp add: str_def)
  have 6: "PIPE \<notin> set (str ''InhaltA'') \<and> RBRACKET \<notin> set (str ''InhaltA'')
             \<and> RBRACKET \<notin> set (str ''InhaltB'')"
    by (simp add: str_def PIPE_def RBRACKET_def)
  have 7: "str ''[['' @ str ''InhaltA'' @ [PIPE] @ str ''InhaltB'' @ str '']]''
             = str ''[[InhaltA|InhaltB]]''"
    by (simp add: str_def PIPE_def)
  from 1 2 3 4 6
    parseWikiLink_grammar [where tgt = "str ''InhaltA''" and als = "str ''InhaltB''"
      and ?s1.0 = "str ''[[NurPrefix]]''" and ?s2.0 = "str ''InhaltA|InhaltB''"
      and ?s3.0 = "str ''[[NurPrefix|Alias]''" and X = "str ''A|B[[C]]''"]
  show ?thesis
    unfolding 5 7 by blast
qed

text \<open>
  The claim as it was stated fails for a nested opening pair that is not closed inside
  the span: \<open>[[A|[[B]]\<close> has the span \<open>A|[[B\<close> between its outer brackets, and the
  parser returns the target \<open>A\<close> and the alias \<open>[[B\<close>.
\<close>

theorem parseWikiLink_nested_opening_counterexample:
  "str ''[[A|[[B]]'' = str ''[['' @ str ''A|'' @ str ''[['' @ str ''B'' @ str '']]''
   \<and> parseWikiLink (str ''[[A|[[B]]'') = (str ''A'', str ''[[B'')
   \<and> parseWikiLink (str ''[[A|[[B]]'') \<noteq> ([], [])"
  by (simp add: parseWikiLink_def WIKI_LINK_REGEX_def str_def LBRACKET_def RBRACKET_def PIPE_def)

text \<open>
  C6.  When the alias extracted from a link is equal to the replacement resolved for it,
  alias processing leaves the queue of deferred mutations as it is.  This holds for the
  link a completion is detected for and for the link the caret has left, so neither
  detector queues a dispatch then.
\<close>

theorem alias_equals_replacement_no_mutation:
  "(extractAlias u (link_text link) (link_from link) = Some ai
      \<and> resolveEmoji u (alias_text ai) = Some (alias_text ai)
     \<longrightarrow> processAlias u link q = q)
   \<and> (extractCompletedWikilink (doc (state u1)) (range_start (selection (state u1))) = Some l1
      \<and> extractAlias u1 (link_text l1) (link_from l1) = Some a1
      \<and> resolveEmoji u1 (alias_text a1) = Some (alias_text a1)
     \<longrightarrow> handleLinkCompletion u1 q = q)
   \<and> (findEnclosingWikilink (doc (state u2)) (range_start (selection (startState u2))) = Some l2
      \<and> extractAlias u2 (link_text l2) (link_from l2) = Some a2
      \<and> resolveEmoji u2 (alias_text a2) = Some (alias_text a2)
     \<longrightarrow> handleCaretExit u2 q = q)"
proof -
  have p: "processAlias v l q' = q'"
    if "extractAlias v (link_text l) (link_from l) = Some a"
      and "resolveEmoji v (alias_text a) = Some (alias_text a)" for v l a q'
    using that by (simp add: processAlias_def)
  show ?thesis
  proof (intro conjI impI)
    assume "extractAlias u (link_text link) (link_from link) = Some ai
      \<and> resolveEmoji u (alias_text ai) = Some (alias_text ai)"
    then show "processAlias u link q = q" using p by blast
  next
    assume a: "extractCompletedWikilink (doc (state u1)) (range_start (selection (state u1))) = Some l1
      \<and> extractAlias u1 (link_text l1) (link_from l1) = Some a1
      \<and> resolveEmoji u1 (alias_text a1) = Some (alias_text a1)"
    then have "processAlias u1 l1 q = q" using p by blast
    with a show "handleLinkCompletion u1 q = q"
      by (simp add: handleLinkCompletion_def Let_def)
  next
    assume a: "findEnclosingWikilink (doc (state u2)) (range_start (selection (startState u2))) = Some l2
      \<and> extractAlias u2 (link_text l2) (link_from l2) = Some a2
      \<and> resolveEmoji u2 (alias_text a2) = Some (alias_text a2)"
    then have "processAlias u2 l2 q = q" using p by blast
    with a show "handleCaretExit u2 q = q"
      by (simp add: handleCaretExit_def Let_def)
  qed
qed

theorem alias_equals_replacement_no_mutation_witness:
  "processAlias guard_completion guard_link [] = []
   \<and> handleLinkCompletion guard_completion [] = []
   \<and> handleCaretExit guard_exit [] = []
   \<and> extractCompletedWikilink (doc (state guard_completion)) 7 = Some guard_link
   \<and> findEnclosingWikilink (doc (state guard_exit)) 4 = Some guard_link
   \<and> \<not> (9 \<le> link_to guard_link)"
proof -
  have f1: "facet (state guard_completion) = [rule_hash]"
    and f2: "facet (state guard_exit) = [rule_hash]"
    by (simp_all add: guard_completion_def guard_exit_def facet_def guard_state_def combine_def
        map_values_def combine_step_def)
  have c: "extractCompletedWikilink (doc (state guard_completion))
             (range_start (selection (state guard_completion))) = Some guard_link"
    by code_simp
  have e: "findEnclosingWikilink (doc (state guard_exit))
             (range_start (selection (startState guard_exit))) = Some guard_link"
    by code_simp
  have r1: "range_start (selection (state guard_completion)) = 7"
    and r2: "range_start (selection (startState guard_exit)) = 4"
    by (simp_all add: guard_completion_def guard_exit_def guard_state_def range_start_def)
  note inst = alias_equals_replacement_no_mutation [where u = guard_completion
      and link = guard_link and ai = "\<lparr>alias_text = str ''#'', alias_from = 4, prefixLength = 1\<rparr>"
      and q = "[]" and ?u1.0 = guard_completion and ?l1.0 = guard_link
      and ?a1.0 = "\<lparr>alias_text = str ''#'', alias_from = 4, prefixLength = 1\<rparr>"
      and ?u2.0 = guard_exit and ?l2.0 = guard_link
      and ?a2.0 = "\<lparr>alias_text = str ''#'', alias_from = 4, prefixLength = 1\<rparr>"]
  have A: "processAlias guard_completion guard_link [] = []"
    using inst guard_extractAlias [OF f1] guard_resolveEmoji [OF f1] by simp
  have B: "handleLinkCompletion guard_completion [] = []"
    using inst c guard_extractAlias [OF f1] guard_resolveEmoji [OF f1] by simp
  have C: "handleCaretExit guard_exit [] = []"
    using inst e guard_extractAlias [OF f2] guard_resolveEmoji [OF f2] by simp
  from A B C c e show ?thesis
    by (simp add: r1 r2) (simp add: guard_link_def)
qed

text \<open>
  C7.  Whatever arrays are contributed, with duplicates inside one array or across
  arrays, no two rules of the merged Rule Set have the same prefix.
\<close>

theorem combine_prefix_distinct: "distinct (map prefix (combine vals))"
  by (simp add: combine_keys fold_keys_distinct)

text \<open>
  C8.  The annotation made from a rule \<open>r\<close> and a template has the attributes of the
  template overlaid with \<open>data-sld-type\<close> set to the link type of \<open>r\<close>: the
  classification key maps to the link type of \<open>r\<close>, also when the template had that
  key, and every other key maps to what it mapped to in the template.  The attribute map
  is always present, the other fields of the template are kept, and this annotation is
  the one added for the first matching rule.  The template's attributes are those of an
  object: no key occurs twice.
\<close>

theorem decorate_attributes:
  "(distinct (map fst (spec_attributes sp))
      \<longrightarrow> map_of (spec_attributes (newspec sp r))
            = map_of (spec_attributes sp) ++ [DATA_SLD_TYPE \<mapsto> linkType r]
        \<and> map_of (spec_attributes (newspec sp r)) DATA_SLD_TYPE = Some (linkType r)
        \<and> (\<forall>k. k \<noteq> DATA_SLD_TYPE
              \<longrightarrow> map_of (spec_attributes (newspec sp r)) k = map_of (spec_attributes sp) k))
   \<and> attributes (newspec sp r) \<noteq> None
   \<and> newspec sp r = sp\<lparr>attributes := attributes (newspec sp r)\<rparr>
   \<and> ((\<forall>x \<in> set pre. \<not> startsWith a (prefix x) \<and> \<not> startsWith a (emoji x))
        \<and> (startsWith a (prefix r) \<or> startsWith a (emoji r))
      \<longrightarrow> decorate b (pre @ r # post) sp a f t
            = b @ [\<lparr>range_from = f, range_to = t, range_value = Mark (newspec sp r)\<rparr>])"
proof (intro conjI impI)
  assume d: "distinct (map fst (spec_attributes sp))"
  show m: "map_of (spec_attributes (newspec sp r))
            = map_of (spec_attributes sp) ++ [DATA_SLD_TYPE \<mapsto> linkType r]"
    using d by (rule newspec_attributes)
  show "map_of (spec_attributes (newspec sp r)) DATA_SLD_TYPE = Some (linkType r)"
    by (simp add: m)
  show "\<forall>k. k \<noteq> DATA_SLD_TYPE
          \<longrightarrow> map_of (spec_attributes (newspec sp r)) k = map_of (spec_attributes sp) k"
    by (simp add: m map_add_def)
next
  show "attributes (newspec sp r) \<noteq> None"
    by (simp add: newspec_def)
  show "newspec sp r = sp\<lparr>attributes := attributes (newspec sp r)\<rparr>"
    by (simp add: newspec_def)
next
  assume "(\<forall>x \<in> set pre. \<not> startsWith a (prefix x) \<and> \<not> startsWith a (emoji x))
        \<and> (startsWith a (prefix r) \<or> startsWith a (emoji r))"
  then show "decorate b (pre @ r # post) sp a f t
            = b @ [\<lparr>range_from = f, range_to = t, range_value = Mark (newspec sp r)\<rparr>]"
    using decorate_first [of pre a r b post sp f t] by (simp add: builder_add_def)
qed

theorem decorate_attributes_witness:
  "decorate [] [rule_location, rule_person] template_spec (str ''@Foo'') 5 20
     = [\<lparr>range_from = 5, range_to = 20, range_value = Mark
          \<lparr>inclusive = Some True,
           attributes = Some [(str ''data-sld-type'', str ''person''), (str ''title'', str ''note'')],
           spec_class = Some (str ''cm-link''), tagName = None\<rparr>\<rparr>]
   \<and> map_of (spec_attributes (newspec template_spec rule_person)) (str ''data-sld-type'')
       = Some (str ''person'')
   \<and> map_of (spec_attributes (newspec template_spec rule_person)) (str ''title'')
       = Some (str ''note'')"
proof -
  have 0: "distinct (map fst (spec_attributes template_spec))"
    by (simp add: template_spec_def spec_attributes_def str_def)
  have 1: "\<forall>x \<in> set [rule_location]. \<not> startsWith (str ''@Foo'') (prefix x)
              \<and> \<not> startsWith (str ''@Foo'') (emoji x)"
    by (simp add: rule_location_def startsWith_def str_def)
  have 2: "startsWith (str ''@Foo'') (prefix rule_person)
             \<or> startsWith (str ''@Foo'') (emoji rule_person)"
    by (simp add: rule_person_def startsWith_def str_def)
  have 3: "str ''title'' \<noteq> DATA_SLD_TYPE"
    by (simp add: DATA_SLD_TYPE_def str_def)
  have 4: "newspec template_spec rule_person
     = \<lparr>inclusive = Some True,
           attributes = Some [(str ''data-sld-type'', str ''person''), (str ''title'', str ''note'')],
           spec_class = Some (str ''cm-link''), tagName = None\<rparr>"
    by (simp add: newspec_def template_spec_def spec_attributes_def spread_def
        DATA_SLD_TYPE_def rule_person_def) (simp add: str_def)
  note inst = decorate_attributes [where sp = template_spec and r = rule_person
      and pre = "[rule_location]" and a = "str ''@Foo''" and b = "[]" and post = "[]"
      and f = 5 and t = 20]
  have A: "decorate [] ([rule_location] @ rule_person # []) template_spec (str ''@Foo'') 5 20
            = [] @ [\<lparr>range_from = 5, range_to = 20,
                      range_value = Mark (newspec template_spec rule_person)\<rparr>]"
    using 1 2 inst by blast
  have B: "map_of (spec_attributes (newspec template_spec rule_person)) DATA_SLD_TYPE
            = Some (linkType rule_person)"
    using 0 inst by blast
  have "map_of (spec_attributes (newspec template_spec rule_person)) (str ''title'')
            = map_of (spec_attributes template_spec) (str ''title'')"
    using 0 3 inst by blast
  then have C: "map_of (spec_attributes (newspec template_spec rule_person)) (str ''title'')
            = Some (str ''note'')"
    by (simp add: template_spec_def spec_attributes_def str_def)
  from A B C show ?thesis
    unfolding 4 by (simp add: DATA_SLD_TYPE_def rule_person_def)
qed

text \<open>
  C9.  When an update changed neither the document nor the viewport and the facet holds
  the same array object before and after, the component is after the update what it was
  before: its decoration set is the one computed earlier, not a rebuilt one.
\<close>

theorem decorator_update_keeps_decorations:
  assumes "\<not> docChanged u" and "\<not> viewportChanged u"
    and "facet_ref (startState u) = facet_ref (state u)"
  shows "CMLinkDecoratorPlugin_update u this = this
     \<and> decorations (CMLinkDecoratorPlugin_update u this) = decorations this"
  using assms by (simp add: CMLinkDecoratorPlugin_update_def)

theorem decorator_update_keeps_decorations_witness:
  "CMLinkDecoratorPlugin_update (caret_exit_update 10 12)
       (CMLinkDecoratorPlugin_constructor scenario_state)
     = CMLinkDecoratorPlugin_constructor scenario_state
   \<and> decorations (CMLinkDecoratorPlugin_update (caret_exit_update 10 12)
         (CMLinkDecoratorPlugin_constructor scenario_state))
     = [\<lparr>range_from = 5, range_to = 20, range_value = person_mark\<rparr>]"
proof -
  have 1: "\<not> docChanged (caret_exit_update 10 12)"
    and 2: "\<not> viewportChanged (caret_exit_update 10 12)"
    and 3: "facet_ref (startState (caret_exit_update 10 12))
              = facet_ref (state (caret_exit_update 10 12))"
    by (simp_all add: caret_exit_update_def)
  have "decorations (CMLinkDecoratorPlugin_constructor scenario_state)
          = [\<lparr>range_from = 5, range_to = 20, range_value = person_mark\<rparr>]"
    by (simp add: CMLinkDecoratorPlugin_constructor_def scenario_facet scenario_decorations)
  with decorator_update_keeps_decorations [OF 1 2 3,
      of "CMLinkDecoratorPlugin_constructor scenario_state"]
  show ?thesis by simp
qed

text \<open>
  C10.  Both selections are carets, the earlier caret lay in a link, and the new caret is
  at the start offset of that link or at its end offset, the position right after
  \<open>]]\<close>.  Then the caret counts as inside the link: alias processing is not started
  and the queue of deferred mutations is left as it is.
\<close>

theorem caret_exit_inclusive_bounds:
  assumes "range_empty (selection (startState u))" and "range_empty (selection (state u))"
    and "findEnclosingWikilink (doc (state u)) (range_start (selection (startState u))) = Some link"
    and "range_start (selection (state u)) = link_from link
         \<or> range_start (selection (state u)) = link_to link"
  shows "handleCaretExit u q = q"
proof -
  have "link_from link \<le> link_to link"
    using assms(3)
    by (auto simp: findEnclosingWikilink_def Let_def split: option.splits if_splits)
  with assms show ?thesis
    by (auto simp: handleCaretExit_def Let_def)
qed

theorem caret_exit_inclusive_bounds_witness:
  "handleCaretExit (caret_exit_update 10 20) [] = []
   \<and> handleCaretExit (caret_exit_update 10 5) [] = []
   \<and> handleCaretExit (caret_exit_update 10 21) [] \<noteq> []
   \<and> findEnclosingWikilink scenario_doc 10 = Some scenario_link
   \<and> link_from scenario_link = 5 \<and> link_to scenario_link = 20"
proof -
  have e: "range_empty (selection (startState (caret_exit_update 10 n)))"
    "range_empty (selection (state (caret_exit_update 10 n)))" for n
    by (simp_all add: caret_exit_update_def range_empty_def range_start_def range_end_def)
  have f: "findEnclosingWikilink (doc (state (caret_exit_update 10 n)))
             (range_start (selection (startState (caret_exit_update 10 n)))) = Some scenario_link" for n
    by (simp add: caret_exit_update_def scenario_state_def range_start_def scenario_enclosing_all)
  have s: "range_start (selection (state (caret_exit_update 10 n))) = n" for n
    by (simp add: caret_exit_update_def range_start_def)
  have l: "link_from scenario_link = 5" "link_to scenario_link = 20"
    by (simp_all add: scenario_link_def)
  have A: "handleCaretExit (caret_exit_update 10 20) [] = []"
    by (rule caret_exit_inclusive_bounds [OF e f]) (simp add: s l)
  have B: "handleCaretExit (caret_exit_update 10 5) [] = []"
    by (rule caret_exit_inclusive_bounds [OF e f]) (simp add: s l)
  from A B l show ?thesis
    by (simp add: scenario_enclosing_all caret_exit_outside)
qed

end
